theory Spec2Isabelle
  imports Complex_Main "HOL-Library.AList"
begin

section \<open>Data model of the pipeline orchestrator\<close>

text \<open>
  The embedding follows \<^verbatim>\<open>pipeline_orchestrator.py\<close> (class PipelineOrchestrator) and
  \<^verbatim>\<open>simple_pipeline_orchestrator.py\<close> (class SimplePipelineOrchestrator).
  Enumerations are datatypes, dataclasses are records, exceptions are values of the
  datatype \<open>exn\<close> carried in the left summand, and everything a method mutates or
  observes outside its arguments (wall clock, downstream HTTP services, breaker
  registry, execution history, the \<^verbatim>\<open>logs\<close> directory) is a field of the record \<open>world\<close>
  that is passed in and returned.
\<close>

datatype StepStatus = PENDING | IN_PROGRESS | COMPLETED | FAILED | SKIPPED

datatype PipelineMode = QUICK | ANALYSIS | FULL

fun mode_value :: "PipelineMode \<Rightarrow> string" where
  "mode_value QUICK = ''quick_mode''"
| "mode_value ANALYSIS = ''analysis_mode''"
| "mode_value FULL = ''full_pipeline''"

text \<open>
  JSON values are opaque and written as strings. A Python dict is an association list in
  insertion order; \<open>AList.update\<close> is \<^verbatim>\<open>d[k] = v\<close> (an existing key keeps its place, a
  new key goes to the end). Time stamps (\<^verbatim>\<open>time.time()\<close>, \<^verbatim>\<open>datetime.now()\<close>) are
  rational numbers of seconds.
\<close>

type_synonym json = string
type_synonym pydict = "(string \<times> json) list"
type_synonym timestamp = rat

datatype exn =
    KeyError string
  | StepConfigNotFound string
  | MissingRequiredFields "string list"
  | CircuitBreakerOpen string
  | IndexError
  | RequestException string
  | OSError string

datatype exec_error =
    CriticalStepFailed string exn
  | Uncaught exn

definition has_key :: "pydict \<Rightarrow> string \<Rightarrow> bool" where
  "has_key d k = (k \<in> set (map fst d))"

definition dict_update :: "pydict \<Rightarrow> pydict \<Rightarrow> pydict" where
  "dict_update d other = fold (\<lambda>(k, v) acc. AList.update k v acc) other d"

record PipelineStep =
  step_name :: string
  step_component :: string
  step_status :: StepStatus
  step_start_time :: "timestamp option"
  step_end_time :: "timestamp option"
  duration_ms :: "rat option"
  input_data :: "pydict option"
  output_data :: "pydict option"
  step_error :: "exn option"
  step_retry_count :: nat

record PipelineExecution =
  execution_id :: string
  mode :: PipelineMode
  status :: StepStatus
  start_time :: timestamp
  end_time :: "timestamp option"
  total_duration_ms :: "rat option"
  steps :: "PipelineStep list"
  error :: "exec_error option"

text \<open>
  Configuration. Keys the code reads with \<^verbatim>\<open>.get(key, default)\<close> are optional fields;
  \<open>cfg_enabled\<close> is optional too, because the two orchestrators read it differently
  (\<^verbatim>\<open>step_config["enabled"]\<close> against \<^verbatim>\<open>step_config.get("enabled", True)\<close>).
  A retry count is a natural number.
\<close>

record StepConfig =
  cfg_name :: string
  cfg_component :: string
  cfg_enabled :: "bool option"
  cfg_endpoint :: string
  cfg_timeout :: "nat option"
  cfg_retry_count :: "nat option"
  cfg_required_fields :: "string list option"

record ComponentConfig =
  base_url :: string

record CircuitBreakerConfig =
  cb_enabled :: bool
  failure_threshold :: int
  recovery_timeout :: rat

record Config =
  sequence_steps :: "StepConfig list"
  default_flow :: "string list"
  bypass_modes :: "string \<rightharpoonup> string list"
  components :: "string \<rightharpoonup> ComponentConfig"
  retry_delays :: "rat list"
  circuit_breaker :: CircuitBreakerConfig
  fallback_responses :: "string \<rightharpoonup> pydict"

datatype breaker_state = Closed | Open | HalfOpen

record breaker =
  failures :: int
  last_failure :: "timestamp option"
  state :: breaker_state

text \<open>
  What a downstream service answers to one HTTP request on the wire: \<open>HttpOk\<close> is a
  success response with its parsed JSON object; \<open>HttpRetry\<close> is an answer that a retrying
  transport adapter sends again (a connection or read error, or one of the status codes
  429, 500, 502, 503, 504); \<open>HttpFail\<close> is any other failure (another error status, on
  which \<^verbatim>\<open>raise_for_status\<close> raises, or a body that \<^verbatim>\<open>response.json()\<close> cannot parse).
\<close>

datatype http_result = HttpOk pydict | HttpFail string | HttpRetry string

text \<open>
  \<open>pending\<close> is the script of the downstream services: the answer to each future request
  on the wire, in order, each with the time it takes; an exhausted script behaves as an
  unreachable server.
  \<open>requests\<close> and \<open>sleeps\<close> log the \<^verbatim>\<open>session.post\<close> calls issued and the delays slept.
  \<open>logs_dir_ok\<close> says whether \<^verbatim>\<open>Path("logs").mkdir(exist_ok=True)\<close> succeeds,
  \<open>log_write_ok\<close> whether the execution log file can be written.
\<close>

record world =
  clock :: timestamp
  pending :: "(timestamp \<times> http_result) list"
  requests :: "(string \<times> pydict \<times> nat) list"
  sleeps :: "rat list"
  circuit_breakers :: "string \<rightharpoonup> breaker"
  execution_history :: "PipelineExecution list"
  logs_dir_ok :: bool
  log_write_ok :: bool
  saved_logs :: "PipelineExecution list"

section \<open>Circuit breaker registry\<close>

text \<open>\<^verbatim>\<open>__init__\<close>: one closed breaker per configured component.\<close>

definition init_circuit_breakers :: "Config \<Rightarrow> (string \<rightharpoonup> breaker)" where
  "init_circuit_breakers cfg =
     (\<lambda>c. case components cfg c of
             None \<Rightarrow> None
           | Some _ \<Rightarrow> Some \<lparr>failures = 0, last_failure = None, state = Closed\<rparr>)"

text \<open>
  \<^verbatim>\<open>_is_circuit_open\<close>. The test \<^verbatim>\<open>breaker["last_failure"] and ...\<close> is Python truthiness:
  a time stamp that is \<^verbatim>\<open>None\<close> or \<^verbatim>\<open>0.0\<close> is false.
\<close>

definition is_circuit_open ::
  "Config \<Rightarrow> timestamp \<Rightarrow> string \<Rightarrow> (string \<rightharpoonup> breaker) \<Rightarrow> exn + (bool \<times> (string \<rightharpoonup> breaker))" where
  "is_circuit_open cfg now component cbs =
     (if \<not> cb_enabled (circuit_breaker cfg) then Inr (False, cbs)
      else case cbs component of
        None \<Rightarrow> Inl (KeyError component)
      | Some b \<Rightarrow>
          if state b = Open then
            (if (case last_failure b of
                   None \<Rightarrow> False
                 | Some t \<Rightarrow> t \<noteq> 0 \<and> now - t > recovery_timeout (circuit_breaker cfg))
             then Inr (False, cbs(component \<mapsto> b\<lparr>state := HalfOpen\<rparr>))
             else Inr (True, cbs))
          else Inr (False, cbs))"

text \<open>\<^verbatim>\<open>_record_failure\<close>.\<close>

definition record_failure ::
  "Config \<Rightarrow> timestamp \<Rightarrow> string \<Rightarrow> (string \<rightharpoonup> breaker) \<Rightarrow> exn + (string \<rightharpoonup> breaker)" where
  "record_failure cfg now component cbs =
     (case cbs component of
        None \<Rightarrow> Inl (KeyError component)
      | Some b \<Rightarrow>
          (let b1 = b\<lparr>failures := failures b + 1, last_failure := Some now\<rparr>
           in Inr (cbs(component \<mapsto>
                 (if failures b1 \<ge> failure_threshold (circuit_breaker cfg)
                  then b1\<lparr>state := Open\<rparr> else b1)))))"

text \<open>\<^verbatim>\<open>_reset_circuit_breaker\<close>.\<close>

definition reset_circuit_breaker ::
  "string \<Rightarrow> (string \<rightharpoonup> breaker) \<Rightarrow> exn + (string \<rightharpoonup> breaker)" where
  "reset_circuit_breaker component cbs =
     (case cbs component of
        None \<Rightarrow> Inl (KeyError component)
      | Some b \<Rightarrow> Inr (cbs(component \<mapsto> b\<lparr>failures := 0, state := Closed\<rparr>)))"


text \<open>
  The breaker registries the orchestrator can hold: the one built by \<^verbatim>\<open>__init__\<close>,
  changed only by the three methods above, at arbitrary times.
\<close>

inductive cb_reachable :: "Config \<Rightarrow> (string \<rightharpoonup> breaker) \<Rightarrow> bool" for cfg where
  cb_init: "cb_reachable cfg (init_circuit_breakers cfg)"
| cb_consult: "cb_reachable cfg cbs \<Longrightarrow> is_circuit_open cfg now c cbs = Inr (r, cbs')
    \<Longrightarrow> cb_reachable cfg cbs'"
| cb_failure: "cb_reachable cfg cbs \<Longrightarrow> record_failure cfg now c cbs = Inr cbs'
    \<Longrightarrow> cb_reachable cfg cbs'"
| cb_reset: "cb_reachable cfg cbs \<Longrightarrow> reset_circuit_breaker c cbs = Inr cbs'
    \<Longrightarrow> cb_reachable cfg cbs'"

section \<open>Step executor (PipelineOrchestrator)\<close>

text \<open>
  The transport adapter of a \<^verbatim>\<open>requests\<close> session with a budget of \<open>retries\<close>: inside one
  \<^verbatim>\<open>session.post\<close> the request is sent again while the answer is one the adapter retries
  and the budget lasts. The result is the outcome of the call (the parsed JSON object, or
  the exception of the transport, of \<^verbatim>\<open>raise_for_status()\<close> or of \<^verbatim>\<open>response.json()\<close>), the
  time it took (the adapter's back-off waits count into the times of the answers) and the
  rest of the script.
\<close>

fun adapter_send ::
  "nat \<Rightarrow> (timestamp \<times> http_result) list
     \<Rightarrow> (exn + pydict) \<times> timestamp \<times> (timestamp \<times> http_result) list" where
  "adapter_send retries [] = (Inl (RequestException ''no response''), 0, [])"
| "adapter_send retries ((dt, r) # rest) =
     (case r of
        HttpOk js \<Rightarrow> (Inr js, dt, rest)
      | HttpFail msg \<Rightarrow> (Inl (RequestException msg), dt, rest)
      | HttpRetry msg \<Rightarrow>
          (case retries of
             0 \<Rightarrow> (Inl (RequestException msg), dt, rest)
           | Suc k \<Rightarrow>
               (case adapter_send k rest of (out, t, rest') \<Rightarrow> (out, dt + t, rest'))))"

fun adapter_retries :: "http_result \<Rightarrow> bool" where
  "adapter_retries (HttpRetry msg) = True"
| "adapter_retries r = False"

definition no_adapter_retry :: "(timestamp \<times> http_result) list \<Rightarrow> bool" where
  "no_adapter_retry script = list_all (\<lambda>a. \<not> adapter_retries (snd a)) script"

text \<open>
  \<^verbatim>\<open>self.session.post(url, json=request_data, timeout=timeout)\<close> followed by
  \<^verbatim>\<open>raise_for_status()\<close> and \<^verbatim>\<open>response.json()\<close>, on the session of PipelineOrchestrator:
  \<^verbatim>\<open>_setup_http_session\<close> mounts
  \<^verbatim>\<open>HTTPAdapter(max_retries=Retry(total=3, status_forcelist=[429, 500, 502, 503, 504], ...))\<close>
  with POST among the retried methods, so one call sends the request up to four times.
\<close>

definition session_post :: "string \<Rightarrow> pydict \<Rightarrow> nat \<Rightarrow> world \<Rightarrow> (exn + pydict) \<times> world" where
  "session_post url body tmo w =
     (case adapter_send 3 (pending w) of
        (out, t, rest) \<Rightarrow>
          (out, w\<lparr>requests := requests w @ [(url, body, tmo)],
                   clock := clock w + t, pending := rest\<rparr>))"

text \<open>
  The request body of \<^verbatim>\<open>_execute_single_step\<close>: the required fields that are present,
  then every other field of the context.
\<close>

definition build_request_data :: "string list \<Rightarrow> pydict \<Rightarrow> pydict" where
  "build_request_data required_fields data =
     (let request_data =
            fold (\<lambda>field acc. case map_of data field of
                                 None \<Rightarrow> acc
                               | Some v \<Rightarrow> AList.update field v acc) required_fields []
      in fold (\<lambda>(key, val) acc. if has_key acc key then acc else AList.update key val acc)
           data request_data)"

text \<open>\<^verbatim>\<open>_execute_single_step\<close>.\<close>

definition execute_single_step ::
  "Config \<Rightarrow> StepConfig \<Rightarrow> pydict \<Rightarrow> world \<Rightarrow> (exn + pydict) \<times> world" where
  "execute_single_step cfg step_config data w =
     (case components cfg (cfg_component step_config) of
        None \<Rightarrow> (Inl (KeyError (cfg_component step_config)), w)
      | Some component_config \<Rightarrow>
          (let url = base_url component_config @ cfg_endpoint step_config;
               required_fields = (case cfg_required_fields step_config of
                                    None \<Rightarrow> [] | Some fs \<Rightarrow> fs);
               missing_fields = filter (\<lambda>field. \<not> has_key data field) required_fields
           in if missing_fields \<noteq> [] then (Inl (MissingRequiredFields missing_fields), w)
              else session_post url (build_request_data required_fields data)
                     (case cfg_timeout step_config of None \<Rightarrow> 30 | Some t \<Rightarrow> t) w))"

text \<open>\<^verbatim>\<open>retry_delays[min(attempt, len(retry_delays) - 1)]\<close>: an empty list gives index
  \<open>-1\<close>, which raises IndexError.\<close>

definition retry_delay :: "rat list \<Rightarrow> nat \<Rightarrow> exn + rat" where
  "retry_delay ds attempt =
     (if ds = [] then Inl IndexError else Inr (ds ! min attempt (length ds - 1)))"

text \<open>\<^verbatim>\<open>await asyncio.sleep(delay)\<close>: a delay that is not positive returns at once.\<close>

definition sleep :: "rat \<Rightarrow> world \<Rightarrow> world" where
  "sleep delay w = w\<lparr>clock := clock w + max 0 delay, sleeps := sleeps w @ [delay]\<rparr>"

text \<open>
  The body of the \<^verbatim>\<open>try\<close> inside the retry loop of \<^verbatim>\<open>_execute_step_with_retry\<close>:
  the call, then the breaker reset. An exception of either reaches the handler.
\<close>

definition try_single_step ::
  "Config \<Rightarrow> StepConfig \<Rightarrow> pydict \<Rightarrow> world \<Rightarrow> (exn + pydict) \<times> world" where
  "try_single_step cfg step_config data w =
     (case execute_single_step cfg step_config data w of
        (Inl e, w1) \<Rightarrow> (Inl e, w1)
      | (Inr result, w1) \<Rightarrow>
          (case reset_circuit_breaker (cfg_component step_config) (circuit_breakers w1) of
             Inl e \<Rightarrow> (Inl e, w1)
           | Inr cbs \<Rightarrow> (Inr result, w1\<lparr>circuit_breakers := cbs\<rparr>)))"

text \<open>
  The loop \<^verbatim>\<open>for attempt in range(retry_count + 1)\<close>, from \<open>attempt\<close> on. After the
  last attempt has failed the failure is recorded and \<^verbatim>\<open>raise last_exception\<close> follows.
\<close>

function retry_loop ::
  "Config \<Rightarrow> StepConfig \<Rightarrow> pydict \<Rightarrow> nat \<Rightarrow> nat \<Rightarrow> world \<Rightarrow> (exn + pydict) \<times> world" where
  "retry_loop cfg step_config data retry_count attempt w =
     (case try_single_step cfg step_config data w of
        (Inr result, w1) \<Rightarrow> (Inr result, w1)
      | (Inl e, w1) \<Rightarrow>
          if attempt < retry_count then
            (case retry_delay (retry_delays cfg) attempt of
               Inl e' \<Rightarrow> (Inl e', w1)
             | Inr delay \<Rightarrow>
                 retry_loop cfg step_config data retry_count (Suc attempt) (sleep delay w1))
          else
            (case record_failure cfg (clock w1) (cfg_component step_config)
                    (circuit_breakers w1) of
               Inl e' \<Rightarrow> (Inl e', w1)
             | Inr cbs \<Rightarrow> (Inl e, w1\<lparr>circuit_breakers := cbs\<rparr>)))"
  by pat_completeness auto
termination
  by (relation "measure (\<lambda>(cfg, step_config, data, retry_count, attempt, w).
        retry_count - attempt)") auto

declare retry_loop.simps [simp del]

text \<open>\<^verbatim>\<open>_execute_step_with_retry\<close>.\<close>

definition execute_step_with_retry ::
  "Config \<Rightarrow> StepConfig \<Rightarrow> pydict \<Rightarrow> world \<Rightarrow> (exn + pydict) \<times> world" where
  "execute_step_with_retry cfg step_config data w =
     (let component = cfg_component step_config
      in case is_circuit_open cfg (clock w) component (circuit_breakers w) of
           Inl e \<Rightarrow> (Inl e, w)
         | Inr (is_open, cbs) \<Rightarrow>
             if is_open
             then (Inl (CircuitBreakerOpen component), w\<lparr>circuit_breakers := cbs\<rparr>)
             else retry_loop cfg step_config data
                    (case cfg_retry_count step_config of None \<Rightarrow> 1 | Some n \<Rightarrow> n) 0
                    (w\<lparr>circuit_breakers := cbs\<rparr>))"

section \<open>Pipeline driver (PipelineOrchestrator)\<close>

text \<open>\<^verbatim>\<open>f"exec_{int(time.time() * 1000)}"\<close>: \<^verbatim>\<open>int\<close> truncates towards zero.\<close>

definition digit_char :: "nat \<Rightarrow> char" where
  "digit_char n = char_of (48 + n)"

function str_nat :: "nat \<Rightarrow> string" where
  "str_nat n = (if n < 10 then [digit_char n] else str_nat (n div 10) @ [digit_char (n mod 10)])"
  by pat_completeness auto
termination
  by (relation "measure id") auto

declare str_nat.simps [simp del]

definition str_int :: "int \<Rightarrow> string" where
  "str_int i = (if i < 0 then CHR ''-'' # str_nat (nat (- i)) else str_nat (nat i))"

definition py_int :: "rat \<Rightarrow> int" where
  "py_int x = (if x < 0 then \<lceil>x\<rceil> else \<lfloor>x\<rfloor>)"

definition default_execution_id :: "world \<Rightarrow> string" where
  "default_execution_id w = ''exec_'' @ str_int (py_int (clock w * 1000))"

text \<open>\<^verbatim>\<open>_get_step_sequence\<close>, \<^verbatim>\<open>_get_step_config\<close>, \<^verbatim>\<open>_get_fallback_data\<close>.\<close>

definition get_step_sequence :: "Config \<Rightarrow> PipelineMode \<Rightarrow> string list" where
  "get_step_sequence cfg m =
     (case bypass_modes cfg (mode_value m) of None \<Rightarrow> default_flow cfg | Some s \<Rightarrow> s)"

definition get_step_config :: "Config \<Rightarrow> string \<Rightarrow> exn + StepConfig" where
  "get_step_config cfg nm =
     (case find (\<lambda>s. cfg_name s = nm) (sequence_steps cfg) of
        None \<Rightarrow> Inl (StepConfigNotFound nm)
      | Some s \<Rightarrow> Inr s)"

definition get_fallback_data :: "Config \<Rightarrow> string \<Rightarrow> pydict option" where
  "get_fallback_data cfg nm = fallback_responses cfg nm"

text \<open>
  The step record as \<^verbatim>\<open>execute_pipeline\<close> creates it, and as it leaves the \<^verbatim>\<open>try\<close>
  (completed) or the handler (failed). The record is appended before the call and
  mutated in place afterwards, so the list holds the final version.
\<close>

definition new_step :: "string \<Rightarrow> StepConfig \<Rightarrow> pydict \<Rightarrow> world \<Rightarrow> PipelineStep" where
  "new_step nm step_config current_data w =
     \<lparr>step_name = nm, step_component = cfg_component step_config,
      step_status = IN_PROGRESS, step_start_time = Some (clock w), step_end_time = None,
      duration_ms = None, input_data = Some current_data, output_data = None,
      step_error = None, step_retry_count = 0\<rparr>"

definition step_completed :: "PipelineStep \<Rightarrow> pydict \<Rightarrow> timestamp \<Rightarrow> world \<Rightarrow> PipelineStep" where
  "step_completed step step_result t0 w1 =
     step\<lparr>output_data := Some step_result, step_status := COMPLETED,
          step_end_time := Some (clock w1), duration_ms := Some ((clock w1 - t0) * 1000)\<rparr>"

definition step_failed :: "PipelineStep \<Rightarrow> exn \<Rightarrow> timestamp \<Rightarrow> world \<Rightarrow> PipelineStep" where
  "step_failed step e t0 w1 =
     step\<lparr>step_error := Some e, step_status := FAILED,
          step_end_time := Some (clock w1), duration_ms := Some ((clock w1 - t0) * 1000)\<rparr>"

text \<open>
  The loop \<^verbatim>\<open>for step_name in step_sequence\<close> of \<^verbatim>\<open>execute_pipeline\<close>. The first
  component of the result is the exception that left the loop, if any (it reaches the
  outer handler); \<^verbatim>\<open>break\<close> and normal exit both give \<open>None\<close>. \<^verbatim>\<open>if fallback_data:\<close> is
  truthiness: a missing and an empty payload are both false.
\<close>

fun run_steps ::
  "Config \<Rightarrow> string list \<Rightarrow> pydict \<Rightarrow> PipelineExecution \<Rightarrow> world
     \<Rightarrow> exn option \<times> pydict \<times> PipelineExecution \<times> world" where
  "run_steps cfg [] current_data execution w = (None, current_data, execution, w)"
| "run_steps cfg (nm # rest) current_data execution w =
     (case get_step_config cfg nm of
        Inl e \<Rightarrow> (Some e, current_data, execution, w)
      | Inr step_config \<Rightarrow>
          (case cfg_enabled step_config of
             None \<Rightarrow> (Some (KeyError ''enabled''), current_data, execution, w)
           | Some False \<Rightarrow> run_steps cfg rest current_data execution w
           | Some True \<Rightarrow>
               (let step = new_step nm step_config current_data w
                in case execute_step_with_retry cfg step_config current_data w of
                     (Inr step_result, w1) \<Rightarrow>
                       run_steps cfg rest (dict_update current_data step_result)
                         (execution\<lparr>steps := steps execution
                             @ [step_completed step step_result (clock w) w1]\<rparr>) w1
                   | (Inl e, w1) \<Rightarrow>
                       (let execution1 = execution\<lparr>steps := steps execution
                                @ [step_failed step e (clock w) w1]\<rparr>;
                            aborted = (None, current_data,
                                execution1\<lparr>status := FAILED,
                                  error := Some (CriticalStepFailed nm e)\<rparr>, w1)
                        in if nm \<in> set (default_flow cfg) then
                             (case get_fallback_data cfg nm of
                                None \<Rightarrow> aborted
                              | Some fallback_data \<Rightarrow>
                                  if fallback_data \<noteq> []
                                  then run_steps cfg rest
                                         (dict_update current_data fallback_data) execution1 w1
                                  else aborted)
                           else run_steps cfg rest current_data execution1 w1))))"

text \<open>
  \<^verbatim>\<open>_save_execution_log\<close>: \<^verbatim>\<open>logs_dir.mkdir(exist_ok=True)\<close> stands before the \<^verbatim>\<open>try\<close>, so
  its failure propagates; a failure of the write is caught and logged.
\<close>

definition save_execution_log :: "PipelineExecution \<Rightarrow> world \<Rightarrow> exn + world" where
  "save_execution_log execution w =
     (if \<not> logs_dir_ok w then Inl (OSError ''logs'')
      else if log_write_ok w then Inr (w\<lparr>saved_logs := saved_logs w @ [execution]\<rparr>)
      else Inr w)"

definition new_execution :: "string option \<Rightarrow> PipelineMode \<Rightarrow> world \<Rightarrow> PipelineExecution" where
  "new_execution eid m w =
     \<lparr>execution_id = (case eid of None \<Rightarrow> default_execution_id w | Some i \<Rightarrow> i),
      mode = m, status = IN_PROGRESS, start_time = clock w, end_time = None,
      total_duration_ms = None, steps = [], error = None\<rparr>"

text \<open>
  \<^verbatim>\<open>execute_pipeline\<close>: the \<^verbatim>\<open>try\<close> (the loop), the outer \<^verbatim>\<open>except Exception\<close>, and the
  \<^verbatim>\<open>finally\<close> block, whose last statement can raise. The result is \<open>Inl\<close> when the
  call raises and \<open>Inr\<close> of the returned record otherwise.
\<close>

definition execute_pipeline ::
  "Config \<Rightarrow> pydict \<Rightarrow> PipelineMode \<Rightarrow> string option \<Rightarrow> world
     \<Rightarrow> (exn + PipelineExecution) \<times> world" where
  "execute_pipeline cfg inp m eid w =
     (case run_steps cfg (get_step_sequence cfg m) inp (new_execution eid m w) w of
        (raised, current_data, execution1, w1) \<Rightarrow>
          (let execution2 =
                 (case raised of
                    None \<Rightarrow> if status execution1 \<noteq> FAILED
                            then execution1\<lparr>status := COMPLETED\<rparr> else execution1
                  | Some e \<Rightarrow> execution1\<lparr>status := FAILED, error := Some (Uncaught e)\<rparr>);
               execution3 = execution2\<lparr>end_time := Some (clock w1),
                   total_duration_ms := Some ((clock w1 - start_time execution2) * 1000)\<rparr>;
               w2 = w1\<lparr>execution_history := execution_history w1 @ [execution3]\<rparr>
           in case save_execution_log execution3 w2 of
                Inl e \<Rightarrow> (Inl e, w2)
              | Inr w3 \<Rightarrow> (Inr execution3, w3)))"

text \<open>The context the loop has accumulated when it ends (\<^verbatim>\<open>current_data\<close>).\<close>

definition final_context :: "Config \<Rightarrow> pydict \<Rightarrow> PipelineMode \<Rightarrow> string option \<Rightarrow> world \<Rightarrow> pydict" where
  "final_context cfg inp m eid w =
     fst (snd (run_steps cfg (get_step_sequence cfg m) inp (new_execution eid m w) w))"

section \<open>SimplePipelineOrchestrator\<close>

definition simple_get_step_config :: "Config \<Rightarrow> string \<Rightarrow> StepConfig option" where
  "simple_get_step_config cfg nm = find (\<lambda>s. cfg_name s = nm) (sequence_steps cfg)"

text \<open>
  The session of SimplePipelineOrchestrator is a plain \<^verbatim>\<open>requests.Session()\<close>
  (\<^verbatim>\<open># Simple session without complex retry logic\<close>): its adapter retries nothing, one call
  is one request on the wire.
\<close>

definition simple_session_post ::
  "string \<Rightarrow> pydict \<Rightarrow> nat \<Rightarrow> world \<Rightarrow> (exn + pydict) \<times> world" where
  "simple_session_post url body tmo w =
     (case adapter_send 0 (pending w) of
        (out, t, rest) \<Rightarrow>
          (out, w\<lparr>requests := requests w @ [(url, body, tmo)],
                   clock := clock w + t, pending := rest\<rparr>))"

definition simple_execute_single_step ::
  "Config \<Rightarrow> StepConfig \<Rightarrow> pydict \<Rightarrow> world \<Rightarrow> (exn + pydict) \<times> world" where
  "simple_execute_single_step cfg step_config data w =
     (case components cfg (cfg_component step_config) of
        None \<Rightarrow> (Inl (KeyError (cfg_component step_config)), w)
      | Some component_config \<Rightarrow>
          (let url = base_url component_config @ cfg_endpoint step_config;
               required_fields = (case cfg_required_fields step_config of
                                    None \<Rightarrow> [] | Some fs \<Rightarrow> fs);
               missing_fields = filter (\<lambda>field. \<not> has_key data field) required_fields
           in if missing_fields \<noteq> [] then (Inl (MissingRequiredFields missing_fields), w)
              else simple_session_post url (build_request_data required_fields data)
                     (case cfg_timeout step_config of None \<Rightarrow> 30 | Some t \<Rightarrow> t) w))"

text \<open>The retry loop of the synchronous \<^verbatim>\<open>_execute_step_with_retry\<close>, with \<^verbatim>\<open>time.sleep(1)\<close>.\<close>

function simple_retry_loop ::
  "Config \<Rightarrow> StepConfig \<Rightarrow> pydict \<Rightarrow> nat \<Rightarrow> nat \<Rightarrow> world \<Rightarrow> (exn + pydict) \<times> world" where
  "simple_retry_loop cfg step_config data retry_count attempt w =
     (case simple_execute_single_step cfg step_config data w of
        (Inr result, w1) \<Rightarrow> (Inr result, w1)
      | (Inl e, w1) \<Rightarrow>
          if attempt < retry_count
          then simple_retry_loop cfg step_config data retry_count (Suc attempt) (sleep 1 w1)
          else (Inl e, w1))"
  by pat_completeness auto
termination
  by (relation "measure (\<lambda>(cfg, step_config, data, retry_count, attempt, w).
        retry_count - attempt)") auto

declare simple_retry_loop.simps [simp del]

definition simple_execute_step_with_retry ::
  "Config \<Rightarrow> StepConfig \<Rightarrow> pydict \<Rightarrow> world \<Rightarrow> (exn + pydict) \<times> world" where
  "simple_execute_step_with_retry cfg step_config data w =
     simple_retry_loop cfg step_config data
       (case cfg_retry_count step_config of None \<Rightarrow> 1 | Some n \<Rightarrow> n) 0 w"

text \<open>The mock data the synchronous handler merges (\<^verbatim>\<open># For demo purposes, continue with mock data\<close>).\<close>

definition mock_data :: "string \<Rightarrow> string \<Rightarrow> pydict \<Rightarrow> pydict" where
  "mock_data nm eid inp =
     (if nm = ''summarize'' then
        [(''summary_id'', ''sum_'' @ eid),
         (''summary'', ''Mock summary: ''
             @ take 50 (case map_of inp ''message_text'' of None \<Rightarrow> [] | Some t \<Rightarrow> t) @ ''...''),
         (''intent'', ''info''), (''urgency'', ''medium''), (''type'', ''general'')]
      else if nm = ''process_summary'' then
        [(''task_id'', ''task_'' @ eid), (''task_summary'', ''Mock task created''),
         (''priority'', ''medium''), (''status'', ''pending'')]
      else if nm = ''respond'' then
        [(''response_id'', ''resp_'' @ eid), (''response_text'', ''Mock response generated''),
         (''tone'', ''neutral''), (''status'', ''ok'')]
      else [])"

fun simple_run_steps ::
  "Config \<Rightarrow> string \<Rightarrow> pydict \<Rightarrow> string list \<Rightarrow> pydict \<Rightarrow> PipelineExecution \<Rightarrow> world
     \<Rightarrow> pydict \<times> PipelineExecution \<times> world" where
  "simple_run_steps cfg eid inp [] current_data execution w = (current_data, execution, w)"
| "simple_run_steps cfg eid inp (nm # rest) current_data execution w =
     (case simple_get_step_config cfg nm of
        None \<Rightarrow> simple_run_steps cfg eid inp rest current_data execution w
      | Some step_config \<Rightarrow>
          if \<not> (case cfg_enabled step_config of None \<Rightarrow> True | Some b \<Rightarrow> b)
          then simple_run_steps cfg eid inp rest current_data execution w
          else
            (let step = new_step nm step_config current_data w
             in case simple_execute_step_with_retry cfg step_config current_data w of
                  (Inr step_result, w1) \<Rightarrow>
                    simple_run_steps cfg eid inp rest (dict_update current_data step_result)
                      (execution\<lparr>steps := steps execution
                          @ [step_completed step step_result (clock w) w1]\<rparr>) w1
                | (Inl e, w1) \<Rightarrow>
                    simple_run_steps cfg eid inp rest
                      (dict_update current_data (mock_data nm eid inp))
                      (execution\<lparr>steps := steps execution
                          @ [step_failed step e (clock w) w1]\<rparr>) w1))"

text \<open>
  The synchronous \<^verbatim>\<open>execute_pipeline\<close>. With a configuration of the record type above
  nothing in its \<^verbatim>\<open>try\<close> raises, and its \<^verbatim>\<open>finally\<close> writes no log file.
\<close>

definition simple_execute_pipeline ::
  "Config \<Rightarrow> pydict \<Rightarrow> PipelineMode \<Rightarrow> string option \<Rightarrow> world \<Rightarrow> PipelineExecution \<times> world" where
  "simple_execute_pipeline cfg inp m eid w =
     (let execution = new_execution eid m w
      in case simple_run_steps cfg (execution_id execution) inp (get_step_sequence cfg m)
                inp execution w of
           (current_data, execution1, w1) \<Rightarrow>
             (let execution2 = execution1\<lparr>status := COMPLETED\<rparr>;
                  execution3 = execution2\<lparr>end_time := Some (clock w1),
                      total_duration_ms := Some ((clock w1 - start_time execution2) * 1000)\<rparr>
              in (execution3, w1\<lparr>execution_history := execution_history w1 @ [execution3]\<rparr>)))"

definition simple_final_context ::
  "Config \<Rightarrow> pydict \<Rightarrow> PipelineMode \<Rightarrow> string option \<Rightarrow> world \<Rightarrow> pydict" where
  "simple_final_context cfg inp m eid w =
     fst (simple_run_steps cfg (execution_id (new_execution eid m w)) inp
            (get_step_sequence cfg m) inp (new_execution eid m w) w)"

section \<open>Reading an execution record\<close>

text \<open>
  A step name that the driver executes: its configuration exists and is enabled. A step
  record is \<open>fatal\<close> when it failed, belongs to the default (critical) flow and has no
  usable fallback payload.
\<close>

definition step_enabled :: "Config \<Rightarrow> string \<Rightarrow> bool" where
  "step_enabled cfg nm =
     (case get_step_config cfg nm of Inl e \<Rightarrow> False | Inr sc \<Rightarrow> cfg_enabled sc = Some True)"

definition usable_fallback :: "Config \<Rightarrow> string \<Rightarrow> bool" where
  "usable_fallback cfg nm =
     (case get_fallback_data cfg nm of None \<Rightarrow> False | Some fb \<Rightarrow> fb \<noteq> [])"

definition fatal :: "Config \<Rightarrow> PipelineStep \<Rightarrow> bool" where
  "fatal cfg s = (step_status s = FAILED \<and> step_name s \<in> set (default_flow cfg)
     \<and> \<not> usable_fallback cfg (step_name s))"

text \<open>The same for the synchronous driver, which skips an unknown step name and reads a
  missing \<^verbatim>\<open>enabled\<close> key as true.\<close>

definition simple_step_enabled :: "Config \<Rightarrow> string \<Rightarrow> bool" where
  "simple_step_enabled cfg nm =
     (case simple_get_step_config cfg nm of
        None \<Rightarrow> False
      | Some sc \<Rightarrow> (case cfg_enabled sc of None \<Rightarrow> True | Some b \<Rightarrow> b))"

text \<open>
  How the loop over \<open>seq\<close> can end, in terms of the step records \<open>new\<close> it appended:
  it ran through (status and error untouched, one record per enabled name), it stopped at a
  fatal record (the last one; status FAILED, the error names the step), or an exception
  left it before the name at some position \<open>k\<close>.
\<close>

definition run_outcome ::
  "Config \<Rightarrow> string list \<Rightarrow> PipelineExecution \<Rightarrow> exn option \<Rightarrow> PipelineExecution
     \<Rightarrow> PipelineStep list \<Rightarrow> bool" where
  "run_outcome cfg seq ex raised ex' new =
     (steps ex' = steps ex @ new
      \<and> list_all (\<lambda>s. step_status s = COMPLETED \<or> step_status s = FAILED) new
      \<and> ((raised = None \<and> status ex' = status ex \<and> error ex' = error ex
             \<and> list_all (\<lambda>s. \<not> fatal cfg s) new
             \<and> map step_name new = filter (step_enabled cfg) seq)
          \<or> (raised = None \<and> status ex' = FAILED
             \<and> (\<exists>pre s e k. new = pre @ [s] \<and> fatal cfg s
                   \<and> list_all (\<lambda>s'. \<not> fatal cfg s') pre
                   \<and> error ex' = Some (CriticalStepFailed (step_name s) e)
                   \<and> k < length seq \<and> seq ! k = step_name s
                   \<and> map step_name new = filter (step_enabled cfg) (take (Suc k) seq)))
          \<or> (\<exists>e k. raised = Some e \<and> status ex' = status ex \<and> error ex' = error ex
                \<and> list_all (\<lambda>s. \<not> fatal cfg s) new
                \<and> k < length seq \<and> \<not> step_enabled cfg (seq ! k)
                \<and> map step_name new = filter (step_enabled cfg) (take k seq))))"

text \<open>The record a call returns, if it returns.\<close>

definition returned :: "(exn + PipelineExecution) \<times> world \<Rightarrow> PipelineExecution option" where
  "returned r = (case fst r of Inl e \<Rightarrow> None | Inr ex \<Rightarrow> Some ex)"

section \<open>Metrics\<close>

datatype metric = MInt int | MNum rat | MTime timestamp

text \<open>\<^verbatim>\<open>round(x, 2)\<close> on exact numbers: to the nearest hundredth, ties to even.\<close>

definition round2 :: "rat \<Rightarrow> rat" where
  "round2 x =
     (let y = x * 100; f = \<lfloor>y\<rfloor>; d = y - of_int f
      in of_int (if d < 1 / 2 then f else if d > 1 / 2 then f + 1
                 else if even f then f else f + 1) / 100)"

text \<open>\<^verbatim>\<open>get_pipeline_metrics\<close> (the same text in both classes), on the execution history.\<close>

definition get_pipeline_metrics :: "PipelineExecution list \<Rightarrow> (string \<times> metric) list" where
  "get_pipeline_metrics history =
     (if history = [] then [(''total_executions'', MInt 0)]
      else
        (let successful = filter (\<lambda>e. status e = COMPLETED) history;
             failed = filter (\<lambda>e. status e = FAILED) history;
             avg_duration =
               (if successful \<noteq> []
                then sum_list (map (\<lambda>e. case total_duration_ms e of None \<Rightarrow> 0 | Some d \<Rightarrow> d)
                        successful) / of_nat (length successful)
                else 0);
             success_rate = of_nat (length successful) / of_nat (length history) * 100
         in [(''total_executions'', MInt (int (length history))),
             (''successful_executions'', MInt (int (length successful))),
             (''failed_executions'', MInt (int (length failed))),
             (''success_rate_percent'', MNum (round2 success_rate)),
             (''avg_duration_ms'', MNum (round2 avg_duration)),
             (''last_execution'', MTime (start_time (last history)))]))"

text \<open>
  The worlds an orchestrator can be in: it starts with an empty history, the
  environment changes between calls, and only \<^verbatim>\<open>execute_pipeline\<close> appends to the history.
\<close>

inductive reachable :: "Config \<Rightarrow> world \<Rightarrow> bool" for cfg where
  r_init: "execution_history w = [] \<Longrightarrow> reachable cfg w"
| r_env: "reachable cfg w \<Longrightarrow>
    reachable cfg (w\<lparr>clock := t, pending := p, logs_dir_ok := d, log_write_ok := f\<rparr>)"
| r_exec: "reachable cfg w \<Longrightarrow> execute_pipeline cfg inp m eid w = (r, w') \<Longrightarrow> reachable cfg w'"
| r_simple: "reachable cfg w \<Longrightarrow> simple_execute_pipeline cfg inp m eid w = (ex, w')
    \<Longrightarrow> reachable cfg w'"

section \<open>An example configuration\<close>

text \<open>
  A small configuration in the shape of the default one of
  \<^verbatim>\<open>SimplePipelineOrchestrator._get_default_config\<close>: two critical steps, one disabled
  step outside the default flow, no fallback payload.
\<close>

definition summarize_step :: StepConfig where
  "summarize_step =
     \<lparr>cfg_name = ''summarize'', cfg_component = ''seeya'', cfg_enabled = Some True,
      cfg_endpoint = ''/api/summarize'', cfg_timeout = Some 30, cfg_retry_count = Some 1,
      cfg_required_fields = Some [''user_id'', ''message_text'']\<rparr>"

definition metrics_step :: StepConfig where
  "metrics_step =
     \<lparr>cfg_name = ''metrics'', cfg_component = ''nilesh'', cfg_enabled = Some False,
      cfg_endpoint = ''/api/metrics'', cfg_timeout = None, cfg_retry_count = Some 0,
      cfg_required_fields = None\<rparr>"

definition respond_step :: StepConfig where
  "respond_step =
     \<lparr>cfg_name = ''respond'', cfg_component = ''noopur'', cfg_enabled = Some True,
      cfg_endpoint = ''/api/respond'', cfg_timeout = Some 20, cfg_retry_count = Some 0,
      cfg_required_fields = Some [''user_id'']\<rparr>"

definition demo_config :: Config where
  "demo_config =
     \<lparr>sequence_steps = [summarize_step, metrics_step, respond_step],
      default_flow = [''summarize'', ''respond''],
      bypass_modes = [''quick_mode'' \<mapsto> [''summarize'', ''respond''],
                      ''full_pipeline'' \<mapsto> [''summarize'', ''metrics'', ''respond'']],
      components = [''seeya'' \<mapsto> \<lparr>base_url = ''http://127.0.0.1:8000''\<rparr>,
                    ''noopur'' \<mapsto> \<lparr>base_url = ''http://127.0.0.1:8000''\<rparr>,
                    ''nilesh'' \<mapsto> \<lparr>base_url = ''http://127.0.0.1:8000''\<rparr>],
      retry_delays = [1, 2, 5],
      circuit_breaker = \<lparr>cb_enabled = True, failure_threshold = 2, recovery_timeout = 60\<rparr>,
      fallback_responses = Map.empty\<rparr>"

text \<open>The same with the circuit breaker switched off, and with a fallback payload.\<close>

definition demo_config_cb_off :: Config where
  "demo_config_cb_off =
     demo_config\<lparr>circuit_breaker :=
       \<lparr>cb_enabled = False, failure_threshold = 2, recovery_timeout = 60\<rparr>\<rparr>"

definition demo_config_fallback :: Config where
  "demo_config_fallback =
     demo_config\<lparr>fallback_responses := [''summarize'' \<mapsto> [(''summary'', ''unavailable'')]]\<rparr>"

definition demo_input :: pydict where
  "demo_input = [(''user_id'', ''u1''), (''message_text'', ''book a hotel'')]"

text \<open>A fresh orchestrator at time 1000 whose downstream services follow the given script.\<close>

definition demo_world :: "(timestamp \<times> http_result) list \<Rightarrow> world" where
  "demo_world script =
     \<lparr>clock = 1000, pending = script, requests = [], sleeps = [],
      circuit_breakers = init_circuit_breakers demo_config, execution_history = [],
      logs_dir_ok = True, log_write_ok = True, saved_logs = []\<rparr>"

text \<open>The registry after two failures of component seeya, the last at time 1001.\<close>

definition seeya_open :: "string \<rightharpoonup> breaker" where
  "seeya_open = (init_circuit_breakers demo_config)
     (''seeya'' \<mapsto> \<lparr>failures = 2, last_failure = Some 1001, state = Open\<rparr>)"

section \<open>Unfolding rules\<close>

lemmas demo_defs = demo_config_def demo_config_cb_off_def demo_config_fallback_def
  summarize_step_def metrics_step_def respond_step_def demo_input_def demo_world_def
  seeya_open_def init_circuit_breakers_def

lemmas exec_defs = execute_step_with_retry_def is_circuit_open_def record_failure_def
  reset_circuit_breaker_def try_single_step_def execute_single_step_def session_post_def
  build_request_data_def has_key_def retry_delay_def sleep_def Let_def

section \<open>The circuit breaker\<close>

lemma cb_invariant:
  "cb_reachable cfg cbs \<Longrightarrow> cbs c = Some b \<Longrightarrow> state b \<noteq> Closed
     \<Longrightarrow> failure_threshold (circuit_breaker cfg) \<le> failures b \<and> last_failure b \<noteq> None"
proof (induction arbitrary: c b rule: cb_reachable.induct)
  case cb_init
  then show ?case
    by (auto simp: init_circuit_breakers_def split: option.splits)
next
  case (cb_consult cbs now c' r cbs')
  from cb_consult.hyps(2) cb_consult.prems cb_consult.IH show ?case
    by (fastforce simp: is_circuit_open_def split: if_splits option.splits)
next
  case (cb_failure cbs now c' cbs')
  from cb_failure.hyps(2) cb_failure.prems cb_failure.IH show ?case
    by (fastforce simp: record_failure_def Let_def split: if_splits option.splits)
next
  case (cb_reset cbs c' cbs')
  from cb_reset.hyps(2) cb_reset.prems cb_reset.IH show ?case
    by (fastforce simp: reset_circuit_breaker_def split: if_splits option.splits)
qed



lemma is_circuit_open_half_open:
  "cb_enabled (circuit_breaker cfg) \<Longrightarrow> cbs c = Some b \<Longrightarrow> state b = Open
   \<Longrightarrow> last_failure b = Some t \<Longrightarrow> t \<noteq> 0 \<Longrightarrow> recovery_timeout (circuit_breaker cfg) < now - t
   \<Longrightarrow> is_circuit_open cfg now c cbs = Inr (False, cbs(c \<mapsto> b\<lparr>state := HalfOpen\<rparr>))"
  by (simp add: is_circuit_open_def)









lemma seeya_open_reachable: "cb_reachable demo_config seeya_open"
proof -
  let ?c1 = "(init_circuit_breakers demo_config)
      (''seeya'' \<mapsto> \<lparr>failures = 1, last_failure = Some 1000, state = Closed\<rparr>)"
  have r0: "cb_reachable demo_config (init_circuit_breakers demo_config)"
    by (rule cb_init)
  have f1: "record_failure demo_config 1000 ''seeya'' (init_circuit_breakers demo_config) = Inr ?c1"
    by (simp add: demo_defs record_failure_def Let_def fun_eq_iff)
  have f2: "record_failure demo_config 1001 ''seeya'' ?c1 = Inr seeya_open"
    by (simp add: demo_defs record_failure_def Let_def fun_eq_iff)
  from cb_failure[OF cb_failure[OF r0 f1] f2] show ?thesis .
qed

lemma seeya_half_open_reachable:
  "cb_reachable demo_config
     (seeya_open(''seeya'' \<mapsto> \<lparr>failures = 2, last_failure = Some 1001, state = HalfOpen\<rparr>))"
proof -
  have "is_circuit_open demo_config 1100 ''seeya'' seeya_open
      = Inr (False, seeya_open(''seeya'' \<mapsto> \<lparr>failures = 2, last_failure = Some 1001, state = HalfOpen\<rparr>))"
    by (simp add: demo_defs is_circuit_open_def)
  from cb_consult[OF seeya_open_reachable this] show ?thesis .
qed

text \<open>
  Claim C7, as stated, fails: the registry reached by two recorded failures of seeya (the
  last at time 1001, \<open>recovery_timeout = 60\<close>) keeps state open for as long as nobody
  consults it, for instance at time 5000; and a consultation at time 1061, exactly
  \<open>recovery_timeout\<close> after the failure, still blocks and leaves the state open, although
  \<open>now - last_failure < recovery_timeout\<close> is false.
\<close>

theorem breaker_open_time_bound_counterexample:
  "cb_reachable demo_config seeya_open
   \<and> seeya_open ''seeya'' = Some \<lparr>failures = 2, last_failure = Some 1001, state = Open\<rparr>
   \<and> \<not> (5000 - 1001 < recovery_timeout (circuit_breaker demo_config))
   \<and> is_circuit_open demo_config 1061 ''seeya'' seeya_open = Inr (True, seeya_open)
   \<and> \<not> (1061 - 1001 < recovery_timeout (circuit_breaker demo_config))"
  using seeya_open_reachable by (simp add: demo_defs is_circuit_open_def)

text \<open>
  Claim C7, amended: in every registry the orchestrator can reach, a breaker whose state
  is open has \<open>failure_count \<ge> failure_threshold\<close> and a recorded last failure (nothing
  bounds \<open>now - last_failure\<close>: the state stays open until the next consultation). With
  the breaker enabled, a consultation later than \<open>recovery_timeout\<close> after the (non-zero)
  last-failure time moves it to half-open and allows the call; from half-open a success
  resets it to closed with failure count 0 and a recorded failure puts it back to open.
\<close>

theorem breaker_invariant_and_recovery:
  assumes "cb_reachable cfg cbs" and "cbs c = Some b"
  shows
   "(state b = Open \<longrightarrow>
        failure_threshold (circuit_breaker cfg) \<le> failures b \<and> last_failure b \<noteq> None)
    \<and> (cb_enabled (circuit_breaker cfg) \<and> state b = Open \<and> last_failure b = Some t \<and> t \<noteq> 0
         \<and> recovery_timeout (circuit_breaker cfg) < now - t
       \<longrightarrow> is_circuit_open cfg now c cbs = Inr (False, cbs(c \<mapsto> b\<lparr>state := HalfOpen\<rparr>)))
    \<and> (state b = HalfOpen \<longrightarrow>
          reset_circuit_breaker c cbs = Inr (cbs(c \<mapsto> b\<lparr>failures := 0, state := Closed\<rparr>))
        \<and> record_failure cfg now' c cbs
            = Inr (cbs(c \<mapsto> b\<lparr>failures := failures b + 1, last_failure := Some now',
                                 state := Open\<rparr>)))"
proof (intro conjI impI)
  assume "state b = Open"
  with cb_invariant[OF assms]
  show "failure_threshold (circuit_breaker cfg) \<le> failures b" and "last_failure b \<noteq> None"
    by simp_all
next
  assume "cb_enabled (circuit_breaker cfg) \<and> state b = Open \<and> last_failure b = Some t \<and> t \<noteq> 0
         \<and> recovery_timeout (circuit_breaker cfg) < now - t"
  with assms(2) show "is_circuit_open cfg now c cbs = Inr (False, cbs(c \<mapsto> b\<lparr>state := HalfOpen\<rparr>))"
    by (simp add: is_circuit_open_half_open)
next
  assume "state b = HalfOpen"
  with assms(2) show "reset_circuit_breaker c cbs
      = Inr (cbs(c \<mapsto> b\<lparr>failures := 0, state := Closed\<rparr>))"
    by (simp add: reset_circuit_breaker_def)
next
  assume h: "state b = HalfOpen"
  with cb_invariant[OF assms] have "failure_threshold (circuit_breaker cfg) \<le> failures b"
    by simp
  with assms(2) show "record_failure cfg now' c cbs
      = Inr (cbs(c \<mapsto> b\<lparr>failures := failures b + 1, last_failure := Some now', state := Open\<rparr>))"
    by (simp add: record_failure_def Let_def)
qed

theorem breaker_invariant_and_recovery_witness:
  "cb_reachable demo_config seeya_open
   \<and> seeya_open ''seeya'' = Some \<lparr>failures = 2, last_failure = Some 1001, state = Open\<rparr>
   \<and> failure_threshold (circuit_breaker demo_config) \<le> 2
   \<and> is_circuit_open demo_config 1100 ''seeya'' seeya_open
       = Inr (False, seeya_open(''seeya'' \<mapsto> \<lparr>failures = 2, last_failure = Some 1001, state = HalfOpen\<rparr>))
   \<and> reset_circuit_breaker ''seeya''
        (seeya_open(''seeya'' \<mapsto> \<lparr>failures = 2, last_failure = Some 1001, state = HalfOpen\<rparr>))
       = Inr (seeya_open(''seeya'' \<mapsto> \<lparr>failures = 0, last_failure = Some 1001, state = Closed\<rparr>))
   \<and> record_failure demo_config 1101 ''seeya''
        (seeya_open(''seeya'' \<mapsto> \<lparr>failures = 2, last_failure = Some 1001, state = HalfOpen\<rparr>))
       = Inr (seeya_open(''seeya'' \<mapsto> \<lparr>failures = 3, last_failure = Some 1101, state = Open\<rparr>))"
proof -
  let ?bo = "\<lparr>failures = 2, last_failure = Some 1001, state = Open\<rparr>"
  let ?bh = "\<lparr>failures = 2, last_failure = Some 1001, state = HalfOpen\<rparr>"
  have o: "seeya_open ''seeya'' = Some ?bo"
    by (simp add: demo_defs)
  have h: "(seeya_open(''seeya'' \<mapsto> ?bh)) ''seeya'' = Some ?bh"
    by simp
  have e: "cb_enabled (circuit_breaker demo_config)
      \<and> recovery_timeout (circuit_breaker demo_config) < 1100 - 1001"
    by (simp add: demo_defs)
  note i1 = breaker_invariant_and_recovery[where cfg = demo_config and cbs = seeya_open
      and c = "''seeya''" and b = ?bo and t = 1001 and now = 1100, OF seeya_open_reachable o]
  note i2 = breaker_invariant_and_recovery[where cfg = demo_config
      and cbs = "seeya_open(''seeya'' \<mapsto> ?bh)" and c = "''seeya''" and b = ?bh
      and now' = 1101, OF seeya_half_open_reachable h]
  from i1 i2 seeya_open_reachable o e
  show ?thesis by simp
qed

section \<open>The step executor\<close>

lemma session_post_frame:
  "session_post url body tmo w = (r, w1) \<Longrightarrow>
     sleeps w1 = sleeps w \<and> circuit_breakers w1 = circuit_breakers w
     \<and> execution_history w1 = execution_history w \<and> logs_dir_ok w1 = logs_dir_ok w
     \<and> log_write_ok w1 = log_write_ok w \<and> saved_logs w1 = saved_logs w
     \<and> length (requests w1) = length (requests w) + 1"
  by (auto simp: session_post_def split: prod.splits)

lemma execute_single_step_frame:
  "execute_single_step cfg sc data w = (r, w1) \<Longrightarrow>
     sleeps w1 = sleeps w \<and> circuit_breakers w1 = circuit_breakers w
     \<and> execution_history w1 = execution_history w \<and> logs_dir_ok w1 = logs_dir_ok w
     \<and> log_write_ok w1 = log_write_ok w \<and> saved_logs w1 = saved_logs w
     \<and> length (requests w1) \<le> length (requests w) + 1"
  by (auto simp: execute_single_step_def Let_def split: option.splits if_splits
           dest!: session_post_frame)

lemma try_single_step_frame:
  "try_single_step cfg sc data w = (r, w1) \<Longrightarrow>
     sleeps w1 = sleeps w
     \<and> execution_history w1 = execution_history w \<and> logs_dir_ok w1 = logs_dir_ok w
     \<and> log_write_ok w1 = log_write_ok w \<and> saved_logs w1 = saved_logs w
     \<and> length (requests w1) \<le> length (requests w) + 1"
  by (auto simp: try_single_step_def split: prod.splits sum.splits
           dest!: execute_single_step_frame)

lemma try_single_step_failed:
  "try_single_step cfg sc data w = (Inl e, w1) \<Longrightarrow> circuit_breakers w1 = circuit_breakers w"
  by (auto simp: try_single_step_def split: prod.splits sum.splits
           dest!: execute_single_step_frame)

lemma retry_loop_Inr:
  "try_single_step cfg sc data w = (Inr res, w1) \<Longrightarrow>
   retry_loop cfg sc data rc attempt w = (Inr res, w1)"
  by (subst retry_loop.simps) simp

lemma retry_loop_retry:
  "try_single_step cfg sc data w = (Inl e, w1) \<Longrightarrow> attempt < rc \<Longrightarrow>
   retry_loop cfg sc data rc attempt w =
     (case retry_delay (retry_delays cfg) attempt of
        Inl e' \<Rightarrow> (Inl e', w1)
      | Inr delay \<Rightarrow> retry_loop cfg sc data rc (Suc attempt) (sleep delay w1))"
  by (subst retry_loop.simps) simp

lemma retry_loop_last:
  "try_single_step cfg sc data w = (Inl e, w1) \<Longrightarrow> \<not> attempt < rc \<Longrightarrow>
   retry_loop cfg sc data rc attempt w =
     (case record_failure cfg (clock w1) (cfg_component sc) (circuit_breakers w1) of
        Inl e' \<Rightarrow> (Inl e', w1)
      | Inr cbs \<Rightarrow> (Inl e, w1\<lparr>circuit_breakers := cbs\<rparr>))"
  by (subst retry_loop.simps) simp

lemma retry_loop_frame:
  "retry_loop cfg sc data rc attempt w = (r, w') \<Longrightarrow>
     execution_history w' = execution_history w \<and> logs_dir_ok w' = logs_dir_ok w
     \<and> log_write_ok w' = log_write_ok w \<and> saved_logs w' = saved_logs w"
proof (induction cfg sc data rc attempt w rule: retry_loop.induct)
  case (1 cfg sc data rc attempt w)
  obtain r1 w1 where t: "try_single_step cfg sc data w = (r1, w1)" by force
  note f = try_single_step_frame[OF t]
  show ?case
  proof (cases r1)
    case (Inr res)
    with t "1.prems" f show ?thesis by (simp add: retry_loop_Inr)
  next
    case (Inl e)
    show ?thesis
    proof (cases "attempt < rc")
      case True
      note unf = retry_loop_retry[OF t[unfolded Inl] True]
      show ?thesis
      proof (cases "retry_delay (retry_delays cfg) attempt")
        case (Inl e')
        with unf "1.prems" f show ?thesis by simp
      next
        case (Inr d)
        with unf "1.prems" have "retry_loop cfg sc data rc (Suc attempt) (sleep d w1) = (r, w')"
          by simp
        from "1.IH"[OF t[symmetric] \<open>r1 = Inl e\<close> True Inr this] f
        show ?thesis by (simp add: sleep_def)
      qed
    next
      case False
      note unf = retry_loop_last[OF t[unfolded Inl] False]
      from unf "1.prems" f show ?thesis
        by (auto split: sum.splits)
    qed
  qed
qed

lemma execute_step_with_retry_frame:
  "execute_step_with_retry cfg sc data w = (r, w') \<Longrightarrow>
     execution_history w' = execution_history w \<and> logs_dir_ok w' = logs_dir_ok w
     \<and> log_write_ok w' = log_write_ok w \<and> saved_logs w' = saved_logs w"
  by (auto simp: execute_step_with_retry_def Let_def
           split: sum.splits prod.splits if_splits dest!: retry_loop_frame)



lemma is_circuit_open_failures:
  "is_circuit_open cfg now c cbs = Inr (r, cbs') \<Longrightarrow> cbs c = Some b \<Longrightarrow>
   \<exists>b0. cbs' c = Some b0 \<and> failures b0 = failures b"
  by (auto simp: is_circuit_open_def split: if_splits option.splits)



lemma try_single_step_missing:
  assumes "components cfg (cfg_component sc) = Some cc"
    and "filter (\<lambda>f. \<not> has_key data f)
           (case cfg_required_fields sc of None \<Rightarrow> [] | Some fs \<Rightarrow> fs) = missing"
    and "missing \<noteq> []"
  shows "try_single_step cfg sc data w = (Inl (MissingRequiredFields missing), w)"
  using assms by (simp add: try_single_step_def execute_single_step_def Let_def)

lemma retry_loop_missing:
  assumes "components cfg (cfg_component sc) = Some cc"
    and "filter (\<lambda>f. \<not> has_key data f)
           (case cfg_required_fields sc of None \<Rightarrow> [] | Some fs \<Rightarrow> fs) = missing"
    and "missing \<noteq> []"
    and "retry_delays cfg \<noteq> []"
  shows "attempt \<le> rc \<Longrightarrow> circuit_breakers w (cfg_component sc) = Some b \<Longrightarrow>
     fst (retry_loop cfg sc data rc attempt w) = Inl (MissingRequiredFields missing)
     \<and> requests (snd (retry_loop cfg sc data rc attempt w)) = requests w
     \<and> pending (snd (retry_loop cfg sc data rc attempt w)) = pending w
     \<and> sleeps (snd (retry_loop cfg sc data rc attempt w))
         = sleeps w @ map (\<lambda>a. retry_delays cfg ! min a (length (retry_delays cfg) - 1))
                        [attempt..<rc]
     \<and> (\<exists>b'. circuit_breakers (snd (retry_loop cfg sc data rc attempt w)) (cfg_component sc)
                 = Some b' \<and> failures b' = failures b + 1)"
proof (induction "rc - attempt" arbitrary: attempt w)
  case 0
  then have last: "\<not> attempt < rc" by simp
  note t = try_single_step_missing[OF assms(1-3), of w]
  have eq: "retry_loop cfg sc data rc attempt w
      = (Inl (MissingRequiredFields missing),
         w\<lparr>circuit_breakers := (circuit_breakers w)(cfg_component sc \<mapsto>
             (if failure_threshold (circuit_breaker cfg) \<le> failures b + 1
              then b\<lparr>failures := failures b + 1, last_failure := Some (clock w), state := Open\<rparr>
              else b\<lparr>failures := failures b + 1, last_failure := Some (clock w)\<rparr>))\<rparr>)"
    using "0.prems"(2) by (simp add: retry_loop_last[OF t last] record_failure_def Let_def)
  have u: "[attempt..<rc] = []" using last by simp
  show ?case by (simp add: eq u)
next
  case (Suc k)
  then have lt: "attempt < rc" by simp
  note t = try_single_step_missing[OF assms(1-3), of w]
  let ?d = "retry_delays cfg ! min attempt (length (retry_delays cfg) - 1)"
  have unf: "retry_loop cfg sc data rc attempt w
      = retry_loop cfg sc data rc (Suc attempt) (sleep ?d w)"
    using assms(4) by (simp add: retry_loop_retry[OF t lt] retry_delay_def)
  have k: "k = rc - Suc attempt" using Suc.hyps(2) by simp
  have le: "Suc attempt \<le> rc" using lt by simp
  have cb: "circuit_breakers (sleep ?d w) (cfg_component sc) = Some b"
    using Suc.prems(2) by (simp add: sleep_def)
  from Suc.hyps(1)[OF k le cb] lt show ?case
    by (simp add: unf sleep_def upt_conv_Cons)
qed

text \<open>
  Claim C1, as stated, fails: with the required field message_text absent and
  \<open>retry_count = 1\<close>, the executor makes no HTTP request, but it does retry: it sleeps the
  first configured delay (one second passes on the clock) before the validation error
  reaches the orchestrator.
\<close>

theorem validation_error_retried_counterexample:
  "fst (execute_step_with_retry demo_config summarize_step [(''user_id'', ''u1'')]
          (demo_world [])) = Inl (MissingRequiredFields [''message_text''])
   \<and> requests (snd (execute_step_with_retry demo_config summarize_step [(''user_id'', ''u1'')]
          (demo_world []))) = []
   \<and> sleeps (snd (execute_step_with_retry demo_config summarize_step [(''user_id'', ''u1'')]
          (demo_world []))) = [1]
   \<and> clock (snd (execute_step_with_retry demo_config summarize_step [(''user_id'', ''u1'')]
          (demo_world []))) = 1001"
  by (simp add: demo_defs exec_defs retry_loop.simps)

text \<open>
  Claim C1, amended: if a required field of the step is absent from the context (the
  step's component is configured and has a breaker, the breaker does not block and
  \<open>retry_delays\<close> is not empty), the executor makes no HTTP attempt and fails with the
  validation error that lists the missing fields; the validation is retried like any
  other failure, so the error surfaces after \<open>retry_count\<close> sleeps of the configured
  delays, and one failure is recorded on the component's breaker.
\<close>

theorem validation_failure_no_http:
  assumes "components cfg (cfg_component sc) = Some cc"
    and "filter (\<lambda>f. \<not> has_key data f)
           (case cfg_required_fields sc of None \<Rightarrow> [] | Some fs \<Rightarrow> fs) = missing"
    and "missing \<noteq> []"
    and "retry_delays cfg \<noteq> []"
    and "is_circuit_open cfg (clock w) (cfg_component sc) (circuit_breakers w) = Inr (False, cbs0)"
    and "circuit_breakers w (cfg_component sc) = Some b"
  shows
   "fst (execute_step_with_retry cfg sc data w) = Inl (MissingRequiredFields missing)
    \<and> requests (snd (execute_step_with_retry cfg sc data w)) = requests w
    \<and> pending (snd (execute_step_with_retry cfg sc data w)) = pending w
    \<and> sleeps (snd (execute_step_with_retry cfg sc data w))
        = sleeps w @ map (\<lambda>a. retry_delays cfg ! min a (length (retry_delays cfg) - 1))
            [0..<(case cfg_retry_count sc of None \<Rightarrow> 1 | Some n \<Rightarrow> n)]
    \<and> (\<exists>b'. circuit_breakers (snd (execute_step_with_retry cfg sc data w)) (cfg_component sc)
                = Some b' \<and> failures b' = failures b + 1)"
proof -
  let ?rc = "case cfg_retry_count sc of None \<Rightarrow> 1 | Some n \<Rightarrow> n"
  let ?w0 = "w\<lparr>circuit_breakers := cbs0\<rparr>"
  have eq: "execute_step_with_retry cfg sc data w = retry_loop cfg sc data ?rc 0 ?w0"
    using assms(5) by (simp add: execute_step_with_retry_def)
  from is_circuit_open_failures[OF assms(5,6)]
  obtain b0 where b0: "cbs0 (cfg_component sc) = Some b0" "failures b0 = failures b"
    by blast
  then have cb: "circuit_breakers ?w0 (cfg_component sc) = Some b0" by simp
  from retry_loop_missing[OF assms(1-4) _ cb, of 0 ?rc] b0(2)
  show ?thesis by (simp add: eq)
qed

theorem validation_failure_no_http_witness:
  "fst (execute_step_with_retry demo_config summarize_step [(''user_id'', ''u1'')]
          (demo_world [(1 / 5, HttpOk [])])) = Inl (MissingRequiredFields [''message_text''])
   \<and> requests (snd (execute_step_with_retry demo_config summarize_step [(''user_id'', ''u1'')]
          (demo_world [(1 / 5, HttpOk [])]))) = []
   \<and> pending (snd (execute_step_with_retry demo_config summarize_step [(''user_id'', ''u1'')]
          (demo_world [(1 / 5, HttpOk [])]))) = [(1 / 5, HttpOk [])]
   \<and> sleeps (snd (execute_step_with_retry demo_config summarize_step [(''user_id'', ''u1'')]
          (demo_world [(1 / 5, HttpOk [])]))) = [1]
   \<and> (\<exists>b'. circuit_breakers (snd (execute_step_with_retry demo_config summarize_step
          [(''user_id'', ''u1'')] (demo_world [(1 / 5, HttpOk [])]))) ''seeya'' = Some b'
         \<and> failures b' = 1)"
proof -
  let ?w = "demo_world [(1 / 5, HttpOk [])]"
  let ?b = "\<lparr>failures = 0, last_failure = None, state = Closed\<rparr>"
  have a1: "components demo_config (cfg_component summarize_step)
      = Some \<lparr>base_url = ''http://127.0.0.1:8000''\<rparr>"
    by (simp add: demo_defs)
  have a2: "filter (\<lambda>f. \<not> has_key [(''user_id'', ''u1'')] f)
           (case cfg_required_fields summarize_step of None \<Rightarrow> [] | Some fs \<Rightarrow> fs)
       = [''message_text'']"
    by (simp add: demo_defs has_key_def)
  have a3: "[''message_text''] \<noteq> []" by simp
  have a4: "retry_delays demo_config \<noteq> []" by (simp add: demo_defs)
  have a5: "is_circuit_open demo_config (clock ?w) (cfg_component summarize_step)
      (circuit_breakers ?w) = Inr (False, circuit_breakers ?w)"
    by (simp add: demo_defs is_circuit_open_def)
  have a6: "circuit_breakers ?w (cfg_component summarize_step) = Some ?b"
    by (simp add: demo_defs)
  have u: "[0..<Suc 0] = [0]" by simp
  from validation_failure_no_http[OF a1 a2 a3 a4 a5 a6]
  show ?thesis
    by (simp add: demo_defs u)
qed

section \<open>The driver loop\<close>

lemma run_steps_cases [case_names notfound nokey disabled ok fallback abort noncritical]:
  obtains
    (notfound) e where "get_step_config cfg nm = Inl e"
      "run_steps cfg (nm # rest) cur ex w = (Some e, cur, ex, w)"
  | (nokey) sc where "get_step_config cfg nm = Inr sc" "cfg_enabled sc = None"
      "run_steps cfg (nm # rest) cur ex w = (Some (KeyError ''enabled''), cur, ex, w)"
  | (disabled) sc where "get_step_config cfg nm = Inr sc" "cfg_enabled sc = Some False"
      "run_steps cfg (nm # rest) cur ex w = run_steps cfg rest cur ex w"
  | (ok) sc res w1 where "get_step_config cfg nm = Inr sc" "cfg_enabled sc = Some True"
      "execute_step_with_retry cfg sc cur w = (Inr res, w1)"
      "run_steps cfg (nm # rest) cur ex w =
         run_steps cfg rest (dict_update cur res)
           (ex\<lparr>steps := steps ex
               @ [step_completed (new_step nm sc cur w) res (clock w) w1]\<rparr>) w1"
  | (fallback) sc e w1 fb where "get_step_config cfg nm = Inr sc" "cfg_enabled sc = Some True"
      "execute_step_with_retry cfg sc cur w = (Inl e, w1)"
      "nm \<in> set (default_flow cfg)" "get_fallback_data cfg nm = Some fb" "fb \<noteq> []"
      "run_steps cfg (nm # rest) cur ex w =
         run_steps cfg rest (dict_update cur fb)
           (ex\<lparr>steps := steps ex @ [step_failed (new_step nm sc cur w) e (clock w) w1]\<rparr>) w1"
  | (abort) sc e w1 where "get_step_config cfg nm = Inr sc" "cfg_enabled sc = Some True"
      "execute_step_with_retry cfg sc cur w = (Inl e, w1)"
      "nm \<in> set (default_flow cfg)" "\<not> usable_fallback cfg nm"
      "run_steps cfg (nm # rest) cur ex w =
         (None, cur,
          ex\<lparr>steps := steps ex @ [step_failed (new_step nm sc cur w) e (clock w) w1],
             status := FAILED, error := Some (CriticalStepFailed nm e)\<rparr>, w1)"
  | (noncritical) sc e w1 where "get_step_config cfg nm = Inr sc" "cfg_enabled sc = Some True"
      "execute_step_with_retry cfg sc cur w = (Inl e, w1)"
      "nm \<notin> set (default_flow cfg)"
      "run_steps cfg (nm # rest) cur ex w =
         run_steps cfg rest cur
           (ex\<lparr>steps := steps ex @ [step_failed (new_step nm sc cur w) e (clock w) w1]\<rparr>) w1"
proof (cases "get_step_config cfg nm")
  case (Inl e)
  then show ?thesis using notfound by simp
next
  case (Inr sc)
  show ?thesis
  proof (cases "cfg_enabled sc")
    case None
    with Inr show ?thesis using nokey by simp
  next
    case (Some en)
    show ?thesis
    proof (cases en)
      case False
      with Inr Some show ?thesis using disabled by simp
    next
      case True
      obtain r w1 where x: "execute_step_with_retry cfg sc cur w = (r, w1)" by force
      show ?thesis
      proof (cases r)
        case (Inr res)
        with \<open>get_step_config cfg nm = Inr sc\<close> Some True x show ?thesis
          using ok by (simp add: Let_def)
      next
        case (Inl e)
        show ?thesis
        proof (cases "nm \<in> set (default_flow cfg)")
          case False
          with \<open>get_step_config cfg nm = Inr sc\<close> Some True x Inl show ?thesis
            using noncritical[of sc e w1] by (simp add: Let_def)
        next
          case crit: True
          show ?thesis
          proof (cases "usable_fallback cfg nm")
            case True
            then obtain fb where "get_fallback_data cfg nm = Some fb" "fb \<noteq> []"
              by (auto simp: usable_fallback_def split: option.splits)
            with \<open>get_step_config cfg nm = Inr sc\<close> Some \<open>en\<close> x Inl crit show ?thesis
              using fallback[of sc e w1 fb] by (simp add: Let_def)
          next
            case False
            with \<open>get_step_config cfg nm = Inr sc\<close> Some \<open>en\<close> x Inl crit show ?thesis
              using abort[of sc e w1]
              by (auto simp: Let_def usable_fallback_def split: option.splits)
          qed
        qed
      qed
    qed
  qed
qed

lemma run_steps_frame:
  "run_steps cfg seq cur ex w = (raised, cur', ex', w') \<Longrightarrow>
     execution_history w' = execution_history w \<and> logs_dir_ok w' = logs_dir_ok w
     \<and> log_write_ok w' = log_write_ok w \<and> saved_logs w' = saved_logs w"
proof (induction seq arbitrary: cur ex w)
  case Nil
  then show ?case by simp
next
  case (Cons nm rest)
  show ?case
  proof (cases rule: run_steps_cases[of cfg nm rest cur ex w])
    case (notfound e)
    with Cons.prems show ?thesis by simp
  next
    case (nokey sc)
    with Cons.prems show ?thesis by simp
  next
    case (disabled sc)
    with Cons.prems Cons.IH show ?thesis by simp
  next
    case (ok sc res w1)
    from Cons.IH[OF Cons.prems[unfolded ok(4)]] execute_step_with_retry_frame[OF ok(3)]
    show ?thesis by simp
  next
    case (fallback sc e w1 fb)
    from Cons.IH[OF Cons.prems[unfolded fallback(7)]] execute_step_with_retry_frame[OF fallback(3)]
    show ?thesis by simp
  next
    case (abort sc e w1)
    from Cons.prems[unfolded abort(6)] execute_step_with_retry_frame[OF abort(3)]
    show ?thesis by auto
  next
    case (noncritical sc e w1)
    from Cons.IH[OF Cons.prems[unfolded noncritical(5)]]
      execute_step_with_retry_frame[OF noncritical(3)]
    show ?thesis by simp
  qed
qed

lemma run_outcomeE:
  assumes "run_outcome cfg seq ex raised ex' new"
  obtains
    (through) "raised = None" "status ex' = status ex" "error ex' = error ex"
      "list_all (\<lambda>s. \<not> fatal cfg s) new" "map step_name new = filter (step_enabled cfg) seq"
  | (stopped) pre s e k where "raised = None" "status ex' = FAILED" "new = pre @ [s]"
      "fatal cfg s" "list_all (\<lambda>s'. \<not> fatal cfg s') pre"
      "error ex' = Some (CriticalStepFailed (step_name s) e)" "k < length seq"
      "seq ! k = step_name s" "map step_name new = filter (step_enabled cfg) (take (Suc k) seq)"
  | (raised) e k where "raised = Some e" "status ex' = status ex" "error ex' = error ex"
      "list_all (\<lambda>s. \<not> fatal cfg s) new" "k < length seq" "\<not> step_enabled cfg (seq ! k)"
      "map step_name new = filter (step_enabled cfg) (take k seq)"
proof -
  from assms have d: "(raised = None \<and> status ex' = status ex \<and> error ex' = error ex
             \<and> list_all (\<lambda>s. \<not> fatal cfg s) new
             \<and> map step_name new = filter (step_enabled cfg) seq)
          \<or> (raised = None \<and> status ex' = FAILED
             \<and> (\<exists>pre s e k. new = pre @ [s] \<and> fatal cfg s
                   \<and> list_all (\<lambda>s'. \<not> fatal cfg s') pre
                   \<and> error ex' = Some (CriticalStepFailed (step_name s) e)
                   \<and> k < length seq \<and> seq ! k = step_name s
                   \<and> map step_name new = filter (step_enabled cfg) (take (Suc k) seq)))
          \<or> (\<exists>e k. raised = Some e \<and> status ex' = status ex \<and> error ex' = error ex
                \<and> list_all (\<lambda>s. \<not> fatal cfg s) new
                \<and> k < length seq \<and> \<not> step_enabled cfg (seq ! k)
                \<and> map step_name new = filter (step_enabled cfg) (take k seq))"
    unfolding run_outcome_def by (elim conjE)
  then show thesis
  proof (elim disjE conjE exE)
    assume "raised = None" "status ex' = status ex" "error ex' = error ex"
      "list_all (\<lambda>s. \<not> fatal cfg s) new" "map step_name new = filter (step_enabled cfg) seq"
    then show thesis by (rule through)
  next
    fix pre s e k
    assume "raised = None" "status ex' = FAILED" "new = pre @ [s]"
      "fatal cfg s" "list_all (\<lambda>s'. \<not> fatal cfg s') pre"
      "error ex' = Some (CriticalStepFailed (step_name s) e)" "k < length seq"
      "seq ! k = step_name s" "map step_name new = filter (step_enabled cfg) (take (Suc k) seq)"
    then show thesis by (rule stopped)
  next
    fix e k
    assume "raised = Some e" "status ex' = status ex" "error ex' = error ex"
      "list_all (\<lambda>s. \<not> fatal cfg s) new" "k < length seq" "\<not> step_enabled cfg (seq ! k)"
      "map step_name new = filter (step_enabled cfg) (take k seq)"
    then show thesis by (rule raised)
  qed
qed

lemma run_outcome_base:
  "run_outcome cfg seq ex raised ex' new \<Longrightarrow>
   steps ex' = steps ex @ new
   \<and> list_all (\<lambda>s. step_status s = COMPLETED \<or> step_status s = FAILED) new"
  unfolding run_outcome_def by (elim conjE) simp

lemma run_outcome_throughI:
  "steps ex' = steps ex @ new \<Longrightarrow>
   list_all (\<lambda>s. step_status s = COMPLETED \<or> step_status s = FAILED) new \<Longrightarrow>
   status ex' = status ex \<Longrightarrow> error ex' = error ex \<Longrightarrow>
   list_all (\<lambda>s. \<not> fatal cfg s) new \<Longrightarrow>
   map step_name new = filter (step_enabled cfg) seq \<Longrightarrow>
   run_outcome cfg seq ex None ex' new"
  unfolding run_outcome_def by (intro conjI disjI1) simp_all

lemma run_outcome_stoppedI:
  "steps ex' = steps ex @ new \<Longrightarrow>
   list_all (\<lambda>s. step_status s = COMPLETED \<or> step_status s = FAILED) new \<Longrightarrow>
   status ex' = FAILED \<Longrightarrow> new = pre @ [s] \<Longrightarrow> fatal cfg s \<Longrightarrow>
   list_all (\<lambda>s'. \<not> fatal cfg s') pre \<Longrightarrow>
   error ex' = Some (CriticalStepFailed (step_name s) e) \<Longrightarrow>
   k < length seq \<Longrightarrow> seq ! k = step_name s \<Longrightarrow>
   map step_name new = filter (step_enabled cfg) (take (Suc k) seq) \<Longrightarrow>
   run_outcome cfg seq ex None ex' new"
  unfolding run_outcome_def
  apply (intro conjI)
    apply assumption
   apply assumption
  apply (rule disjI2)
  apply (rule disjI1)
  apply (intro conjI)
    apply (rule refl)
   apply assumption
  apply (rule exI[of _ pre], rule exI[of _ s], rule exI[of _ e], rule exI[of _ k])
  apply (intro conjI; assumption)
  done

lemma run_outcome_raisedI:
  "steps ex' = steps ex @ new \<Longrightarrow>
   list_all (\<lambda>s. step_status s = COMPLETED \<or> step_status s = FAILED) new \<Longrightarrow>
   status ex' = status ex \<Longrightarrow> error ex' = error ex \<Longrightarrow>
   list_all (\<lambda>s. \<not> fatal cfg s) new \<Longrightarrow>
   k < length seq \<Longrightarrow> \<not> step_enabled cfg (seq ! k) \<Longrightarrow>
   map step_name new = filter (step_enabled cfg) (take k seq) \<Longrightarrow>
   run_outcome cfg seq ex (Some e) ex' new"
  unfolding run_outcome_def
  apply (intro conjI)
    apply assumption
   apply assumption
  apply (rule disjI2)
  apply (rule disjI2)
  apply (rule exI[of _ e], rule exI[of _ k])
  apply (intro conjI; (assumption | rule refl))
  done


lemma run_outcome_skip:
  assumes ne: "\<not> step_enabled cfg nm" and o: "run_outcome cfg rest ex raised ex' new"
  shows "run_outcome cfg (nm # rest) ex raised ex' new"
proof -
  from run_outcome_base[OF o] have b1: "steps ex' = steps ex @ new"
    and b2: "list_all (\<lambda>s. step_status s = COMPLETED \<or> step_status s = FAILED) new"
    by simp_all
  from o show ?thesis
  proof (cases rule: run_outcomeE)
    case through
    have "map step_name new = filter (step_enabled cfg) (nm # rest)"
      using through(5) ne by simp
    with through b1 b2 show ?thesis
      by (simp add: run_outcome_throughI)
  next
    case (stopped pre s e k)
    have k: "Suc k < length (nm # rest)" "(nm # rest) ! Suc k = step_name s"
      "map step_name new = filter (step_enabled cfg) (take (Suc (Suc k)) (nm # rest))"
      using stopped ne by simp_all
    show ?thesis
      unfolding stopped(1)
      by (rule run_outcome_stoppedI[OF b1 b2 stopped(2,3,4,5,6) k])
  next
    case (raised e k)
    have k: "Suc k < length (nm # rest)" "\<not> step_enabled cfg ((nm # rest) ! Suc k)"
      "map step_name new = filter (step_enabled cfg) (take (Suc k) (nm # rest))"
      using raised ne by simp_all
    show ?thesis
      unfolding raised(1)
      by (rule run_outcome_raisedI[OF b1 b2 raised(2,3,4) k])
  qed
qed

lemma run_outcome_cons:
  assumes en: "step_enabled cfg nm" and nm: "step_name s0 = nm" and nf: "\<not> fatal cfg s0"
    and st: "step_status s0 = COMPLETED \<or> step_status s0 = FAILED"
    and o: "run_outcome cfg rest (ex\<lparr>steps := steps ex @ [s0]\<rparr>) raised ex' new"
  shows "run_outcome cfg (nm # rest) ex raised ex' (s0 # new)"
proof -
  from run_outcome_base[OF o] st have b1: "steps ex' = steps ex @ (s0 # new)"
    and b2: "list_all (\<lambda>s. step_status s = COMPLETED \<or> step_status s = FAILED) (s0 # new)"
    by simp_all
  from o show ?thesis
  proof (cases rule: run_outcomeE)
    case through
    have "map step_name (s0 # new) = filter (step_enabled cfg) (nm # rest)"
      "list_all (\<lambda>s. \<not> fatal cfg s) (s0 # new)"
      "status ex' = status ex" "error ex' = error ex"
      using through en nm nf by simp_all
    with through(1) b1 b2 show ?thesis
      by (simp add: run_outcome_throughI)
  next
    case (stopped pre s e k)
    have k: "s0 # new = (s0 # pre) @ [s]" "fatal cfg s"
      "list_all (\<lambda>s'. \<not> fatal cfg s') (s0 # pre)"
      "error ex' = Some (CriticalStepFailed (step_name s) e)"
      "Suc k < length (nm # rest)" "(nm # rest) ! Suc k = step_name s"
      "map step_name (s0 # new) = filter (step_enabled cfg) (take (Suc (Suc k)) (nm # rest))"
      using stopped en nm nf by simp_all
    show ?thesis
      unfolding stopped(1)
      by (rule run_outcome_stoppedI[OF b1 b2 stopped(2) k])
  next
    case (raised e k)
    have k: "status ex' = status ex" "error ex' = error ex"
      "list_all (\<lambda>s. \<not> fatal cfg s) (s0 # new)"
      "Suc k < length (nm # rest)" "\<not> step_enabled cfg ((nm # rest) ! Suc k)"
      "map step_name (s0 # new) = filter (step_enabled cfg) (take (Suc k) (nm # rest))"
      using raised en nm nf by simp_all
    show ?thesis
      unfolding raised(1)
      by (rule run_outcome_raisedI[OF b1 b2 k])
  qed
qed

lemma run_outcome_raise_now:
  assumes "\<not> step_enabled cfg nm"
  shows "run_outcome cfg (nm # rest) ex (Some e) ex []"
proof -
  have k: "(0::nat) < length (nm # rest)" "\<not> step_enabled cfg ((nm # rest) ! 0)"
    "map step_name [] = filter (step_enabled cfg) (take 0 (nm # rest))"
    using assms by simp_all
  show ?thesis
    by (rule run_outcome_raisedI[OF _ _ _ _ _ k]) simp_all
qed

lemma run_outcome_abort:
  assumes en: "step_enabled cfg nm" and nm: "step_name s0 = nm" and f: "fatal cfg s0"
    and st: "step_status s0 = FAILED"
  shows "run_outcome cfg (nm # rest) ex None
     (ex\<lparr>steps := steps ex @ [s0], status := FAILED, error := Some (CriticalStepFailed nm e)\<rparr>)
     [s0]"
proof -
  let ?ex' = "ex\<lparr>steps := steps ex @ [s0], status := FAILED,
      error := Some (CriticalStepFailed nm e)\<rparr>"
  have k: "steps ?ex' = steps ex @ [s0]"
    "list_all (\<lambda>s. step_status s = COMPLETED \<or> step_status s = FAILED) [s0]"
    "status ?ex' = FAILED"
    "[s0] = [] @ [s0]" "fatal cfg s0" "list_all (\<lambda>s'. \<not> fatal cfg s') []"
    "error ?ex' = Some (CriticalStepFailed (step_name s0) e)"
    "(0::nat) < length (nm # rest)" "(nm # rest) ! 0 = step_name s0"
    "map step_name [s0] = filter (step_enabled cfg) (take (Suc 0) (nm # rest))"
    using assms by simp_all
  show ?thesis
    by (rule run_outcome_stoppedI[OF k])
qed


lemma run_steps_outcome:
  "run_steps cfg seq cur ex w = (raised, cur', ex', w') \<Longrightarrow>
   \<exists>new. run_outcome cfg seq ex raised ex' new"
proof (induction seq arbitrary: cur ex w)
  case Nil
  then have "raised = None" "ex' = ex" by simp_all
  then have "run_outcome cfg [] ex raised ex' []"
    by (simp add: run_outcome_throughI)
  then show ?case ..
next
  case (Cons nm rest)
  show ?case
  proof (cases rule: run_steps_cases[of cfg nm rest cur ex w])
    case (notfound e)
    then have ne: "\<not> step_enabled cfg nm" by (simp add: step_enabled_def)
    from Cons.prems[unfolded notfound(2)] have "raised = Some e" "ex' = ex" by simp_all
    with run_outcome_raise_now[OF ne, of rest ex e] show ?thesis by blast
  next
    case (nokey sc)
    then have ne: "\<not> step_enabled cfg nm" by (simp add: step_enabled_def)
    from Cons.prems[unfolded nokey(3)] have "raised = Some (KeyError ''enabled'')" "ex' = ex"
      by simp_all
    with run_outcome_raise_now[OF ne, of rest ex "KeyError ''enabled''"] show ?thesis by blast
  next
    case (disabled sc)
    then have ne: "\<not> step_enabled cfg nm" by (simp add: step_enabled_def)
    from Cons.IH[OF Cons.prems[unfolded disabled(3)]]
    obtain new where "run_outcome cfg rest ex raised ex' new" ..
    from run_outcome_skip[OF ne this] show ?thesis ..
  next
    case (ok sc res w1)
    let ?s = "step_completed (new_step nm sc cur w) res (clock w) w1"
    have en: "step_enabled cfg nm" using ok by (simp add: step_enabled_def)
    have s: "step_name ?s = nm" "\<not> fatal cfg ?s"
      "step_status ?s = COMPLETED \<or> step_status ?s = FAILED"
      by (simp_all add: step_completed_def new_step_def fatal_def)
    from Cons.IH[OF Cons.prems[unfolded ok(4)]]
    obtain new where "run_outcome cfg rest (ex\<lparr>steps := steps ex @ [?s]\<rparr>) raised ex' new" ..
    from run_outcome_cons[OF en s this] show ?thesis ..
  next
    case (fallback sc e w1 fb)
    let ?s = "step_failed (new_step nm sc cur w) e (clock w) w1"
    have en: "step_enabled cfg nm" using fallback by (simp add: step_enabled_def)
    have s: "step_name ?s = nm" "\<not> fatal cfg ?s"
      "step_status ?s = COMPLETED \<or> step_status ?s = FAILED"
      using fallback(5,6)
      by (simp_all add: step_failed_def new_step_def fatal_def usable_fallback_def)
    from Cons.IH[OF Cons.prems[unfolded fallback(7)]]
    obtain new where "run_outcome cfg rest (ex\<lparr>steps := steps ex @ [?s]\<rparr>) raised ex' new" ..
    from run_outcome_cons[OF en s this] show ?thesis ..
  next
    case (abort sc e w1)
    let ?s = "step_failed (new_step nm sc cur w) e (clock w) w1"
    have en: "step_enabled cfg nm" using abort by (simp add: step_enabled_def)
    have s: "step_name ?s = nm" "fatal cfg ?s" "step_status ?s = FAILED"
      using abort(4,5)
      by (simp_all add: step_failed_def new_step_def fatal_def)
    from Cons.prems[unfolded abort(6)] have "raised = None"
      "ex' = ex\<lparr>steps := steps ex @ [?s], status := FAILED,
          error := Some (CriticalStepFailed nm e)\<rparr>"
      by auto
    with run_outcome_abort[OF en s, of rest ex e] show ?thesis by blast
  next
    case (noncritical sc e w1)
    let ?s = "step_failed (new_step nm sc cur w) e (clock w) w1"
    have en: "step_enabled cfg nm" using noncritical by (simp add: step_enabled_def)
    have s: "step_name ?s = nm" "\<not> fatal cfg ?s"
      "step_status ?s = COMPLETED \<or> step_status ?s = FAILED"
      using noncritical(4)
      by (simp_all add: step_failed_def new_step_def fatal_def)
    from Cons.IH[OF Cons.prems[unfolded noncritical(5)]]
    obtain new where "run_outcome cfg rest (ex\<lparr>steps := steps ex @ [?s]\<rparr>) raised ex' new" ..
    from run_outcome_cons[OF en s this] show ?thesis ..
  qed
qed

section \<open>The whole run\<close>

lemma new_execution_fields:
  "steps (new_execution eid m w) = []" "status (new_execution eid m w) = IN_PROGRESS"
  "error (new_execution eid m w) = None"
  by (simp_all add: new_execution_def)

lemma execute_pipeline_result:
  "\<exists>ex raised ex1.
     execution_history (snd (execute_pipeline cfg inp m eid w)) = execution_history w @ [ex]
     \<and> fst (execute_pipeline cfg inp m eid w)
         = (if logs_dir_ok w then Inr ex else Inl (OSError ''logs''))
     \<and> end_time ex \<noteq> None \<and> total_duration_ms ex \<noteq> None
     \<and> run_outcome cfg (get_step_sequence cfg m) (new_execution eid m w) raised ex1 (steps ex)
     \<and> status ex = (case raised of
                      None \<Rightarrow> if status ex1 = FAILED then FAILED else COMPLETED
                    | Some e \<Rightarrow> FAILED)
     \<and> error ex = (case raised of None \<Rightarrow> error ex1 | Some e \<Rightarrow> Some (Uncaught e))
     \<and> (\<exists>w1. run_steps cfg (get_step_sequence cfg m) inp (new_execution eid m w) w
                 = (raised, final_context cfg inp m eid w, ex1, w1)
              \<and> pending (snd (execute_pipeline cfg inp m eid w)) = pending w1)
     \<and> steps ex1 = steps ex"
proof -
  obtain raised cur' ex1 w1 where
    r: "run_steps cfg (get_step_sequence cfg m) inp (new_execution eid m w) w
          = (raised, cur', ex1, w1)"
    by (metis prod_cases4)
  from run_steps_outcome[OF r] obtain new where
    o: "run_outcome cfg (get_step_sequence cfg m) (new_execution eid m w) raised ex1 new" ..
  from run_outcome_base[OF o] have st: "steps ex1 = new"
    by (simp add: new_execution_fields)
  note f = run_steps_frame[OF r]
  let ?ex2 = "case raised of
                None \<Rightarrow> if status ex1 \<noteq> FAILED then ex1\<lparr>status := COMPLETED\<rparr> else ex1
              | Some e \<Rightarrow> ex1\<lparr>status := FAILED, error := Some (Uncaught e)\<rparr>"
  let ?ex3 = "?ex2\<lparr>end_time := Some (clock w1),
      total_duration_ms := Some ((clock w1 - start_time ?ex2) * 1000)\<rparr>"
  have h: "execution_history (snd (execute_pipeline cfg inp m eid w))
      = execution_history w @ [?ex3]"
    using r f by (simp add: execute_pipeline_def save_execution_log_def Let_def)
  have ret: "fst (execute_pipeline cfg inp m eid w)
      = (if logs_dir_ok w then Inr ?ex3 else Inl (OSError ''logs''))"
    using r f by (simp add: execute_pipeline_def save_execution_log_def Let_def)
  have s3: "steps ?ex3 = new" using st by (simp split: option.splits)
  have st3: "status ?ex3 = (case raised of
                      None \<Rightarrow> if status ex1 = FAILED then FAILED else COMPLETED
                    | Some e \<Rightarrow> FAILED)"
    by (simp split: option.splits)
  have er3: "error ?ex3 = (case raised of None \<Rightarrow> error ex1 | Some e \<Rightarrow> Some (Uncaught e))"
    by (simp split: option.splits)
  have t3: "end_time ?ex3 \<noteq> None" "total_duration_ms ?ex3 \<noteq> None" by simp_all
  have fc: "final_context cfg inp m eid w = cur'"
    using r by (simp add: final_context_def)
  have pe: "pending (snd (execute_pipeline cfg inp m eid w)) = pending w1"
    using r f by (simp add: execute_pipeline_def save_execution_log_def Let_def)
  have "\<exists>w1'. run_steps cfg (get_step_sequence cfg m) inp (new_execution eid m w) w
                 = (raised, final_context cfg inp m eid w, ex1, w1')
              \<and> pending (snd (execute_pipeline cfg inp m eid w)) = pending w1'"
    using r fc pe by blast
  with h ret t3 o[folded s3] st3 er3 st[folded s3] show ?thesis by blast
qed

lemmas pipeline_defs = execute_pipeline_def new_execution_def get_step_sequence_def
  get_step_config_def get_fallback_data_def new_step_def step_completed_def step_failed_def
  save_execution_log_def dict_update_def



text \<open>
  Claim C5 is right and the code misses it: \<^verbatim>\<open>_save_execution_log\<close> catches a failure of
  the file write, but its \<^verbatim>\<open>logs_dir.mkdir(exist_ok=True)\<close> stands outside the \<^verbatim>\<open>try\<close>, and
  the call sits in the \<^verbatim>\<open>finally\<close> block of \<^verbatim>\<open>execute_pipeline\<close>. Where the directory
  cannot be created the run is finalized and appended to the history, but
  \<^verbatim>\<open>execute_pipeline\<close> raises instead of returning the record.
\<close>

theorem execute_pipeline_raises_without_logs_dir:
  "fst (execute_pipeline demo_config demo_input QUICK (Some ''e1'')
         ((demo_world [(1 / 5, HttpOk [(''summary'', ''s'')]), (1 / 5, HttpOk [(''response_text'', ''r'')])])
            \<lparr>logs_dir_ok := False\<rparr>)) = Inl (OSError ''logs'')
   \<and> map status (execution_history (snd (execute_pipeline demo_config demo_input QUICK (Some ''e1'')
         ((demo_world [(1 / 5, HttpOk [(''summary'', ''s'')]), (1 / 5, HttpOk [(''response_text'', ''r'')])])
            \<lparr>logs_dir_ok := False\<rparr>)))) = [COMPLETED]"
  by (simp add: demo_defs exec_defs pipeline_defs retry_loop.simps)

lemma keys_dict_update: "fst ` set (dict_update d other) = fst ` set d \<union> fst ` set other"
proof -
  have "fst ` set (fold (\<lambda>(k, v) acc. AList.update k v acc) other d)
      = fst ` set d \<union> fst ` set other" for d
  proof (induction other arbitrary: d)
    case Nil
    then show ?case by simp
  next
    case (Cons p other)
    obtain k v where p: "p = (k, v)" by force
    from Cons.IH[of "AList.update k v d"] show ?case
      by (auto simp: p dom_update)
  qed
  then show ?thesis by (simp add: dict_update_def)
qed

lemma run_steps_context:
  "run_steps cfg seq cur ex w = (raised, cur', ex', w') \<Longrightarrow> steps ex' = steps ex @ new \<Longrightarrow>
   fst ` set cur \<subseteq> fst ` set cur'
   \<and> list_all (\<lambda>s. step_status s = FAILED \<and> step_name s \<in> set (default_flow cfg)
                   \<and> usable_fallback cfg (step_name s)
                 \<longrightarrow> (\<exists>fb. get_fallback_data cfg (step_name s) = Some fb \<and> fb \<noteq> []
                          \<and> fst ` set fb \<subseteq> fst ` set cur')) new"
proof (induction seq arbitrary: cur ex w new)
  case Nil
  then show ?case by simp
next
  case (Cons nm rest)
  let ?P = "\<lambda>s. step_status s = FAILED \<and> step_name s \<in> set (default_flow cfg)
                   \<and> usable_fallback cfg (step_name s)
                 \<longrightarrow> (\<exists>fb. get_fallback_data cfg (step_name s) = Some fb \<and> fb \<noteq> []
                          \<and> fst ` set fb \<subseteq> fst ` set cur')"
  have step: "fst ` set cur \<subseteq> fst ` set cur' \<and> list_all ?P new"
    if rec: "run_steps cfg rest cur1 (ex\<lparr>steps := steps ex @ [s0]\<rparr>) w1 = (raised, cur', ex', w')"
      and sub: "fst ` set cur \<subseteq> fst ` set cur1"
      and s0: "fst ` set cur1 \<subseteq> fst ` set cur' \<Longrightarrow> ?P s0"
    for cur1 s0 w1
  proof -
    from run_steps_outcome[OF rec] obtain new1 where
      "run_outcome cfg rest (ex\<lparr>steps := steps ex @ [s0]\<rparr>) raised ex' new1" ..
    from run_outcome_base[OF this] have "steps ex' = (steps ex @ [s0]) @ new1" by simp
    with Cons.prems(2) have n: "new = s0 # new1" by simp
    from Cons.IH[OF rec, of new1] \<open>steps ex' = (steps ex @ [s0]) @ new1\<close>
    have ih: "fst ` set cur1 \<subseteq> fst ` set cur'" "list_all ?P new1" by simp_all
    from ih sub s0 n show ?thesis by auto
  qed
  show ?case
  proof (cases rule: run_steps_cases[of cfg nm rest cur ex w])
    case (notfound e)
    with Cons.prems show ?thesis by simp
  next
    case (nokey sc)
    with Cons.prems show ?thesis by simp
  next
    case (disabled sc)
    from Cons.IH[OF Cons.prems(1)[unfolded disabled(3)] Cons.prems(2)] show ?thesis .
  next
    case (ok sc res w1)
    show ?thesis
      by (rule step[OF Cons.prems(1)[unfolded ok(4)]])
        (simp_all add: keys_dict_update step_completed_def new_step_def)
  next
    case (fallback sc e w1 fb)
    show ?thesis
    proof (rule step[OF Cons.prems(1)[unfolded fallback(7)]])
      show "fst ` set cur \<subseteq> fst ` set (dict_update cur fb)"
        by (simp add: keys_dict_update)
    next
      assume "fst ` set (dict_update cur fb) \<subseteq> fst ` set cur'"
      then have "fst ` set fb \<subseteq> fst ` set cur'" by (simp add: keys_dict_update)
      with fallback(5,6)
      show "?P (step_failed (new_step nm sc cur w) e (clock w) w1)"
        by (simp add: step_failed_def new_step_def)
    qed
  next
    case (abort sc e w1)
    from Cons.prems(1)[unfolded abort(6)] Cons.prems(2)
    have "cur' = cur" "new = [step_failed (new_step nm sc cur w) e (clock w) w1]" by auto
    with abort(5) show ?thesis
      by (simp add: step_failed_def new_step_def)
  next
    case (noncritical sc e w1)
    show ?thesis
      by (rule step[OF Cons.prems(1)[unfolded noncritical(5)]])
        (simp_all add: step_failed_def new_step_def noncritical(4))
  qed
qed

text \<open>
  Claim C6, as stated, fails: with a fallback payload configured for the critical step
  summarize whose two attempts both fail, the run is returned with status COMPLETED while
  the record of summarize keeps status FAILED.
\<close>

theorem completed_with_failed_critical_step_counterexample:
  "map_option status (returned (execute_pipeline demo_config_fallback demo_input QUICK (Some ''e1'')
      (demo_world [(1 / 5, HttpFail ''404''), (1 / 5, HttpFail ''404''),
                   (1 / 5, HttpOk [(''response_text'', ''r'')])]))) = Some COMPLETED
   \<and> map_option (map step_name \<circ> steps)
       (returned (execute_pipeline demo_config_fallback demo_input QUICK (Some ''e1'')
      (demo_world [(1 / 5, HttpFail ''404''), (1 / 5, HttpFail ''404''),
                   (1 / 5, HttpOk [(''response_text'', ''r'')])])))
       = Some [''summarize'', ''respond'']
   \<and> map_option (map step_status \<circ> steps)
       (returned (execute_pipeline demo_config_fallback demo_input QUICK (Some ''e1'')
      (demo_world [(1 / 5, HttpFail ''404''), (1 / 5, HttpFail ''404''),
                   (1 / 5, HttpOk [(''response_text'', ''r'')])])))
       = Some [FAILED, COMPLETED]
   \<and> ''summarize'' \<in> set (default_flow demo_config_fallback)"
  by (simp add: demo_defs exec_defs pipeline_defs retry_loop.simps returned_def)

text \<open>
  Claim C6, amended: for the record of a run (returned whenever the log directory can be
  created) with status COMPLETED, the step list has one record per enabled step name of
  the resolved sequence, and every record of a step of the default flow either has status
  COMPLETED, or has status FAILED while a non-empty fallback payload is configured for the
  step and all its fields are keys of the final accumulated context.
\<close>

theorem completed_run_critical_steps:
  "\<exists>ex. execution_history (snd (execute_pipeline cfg inp m eid w)) = execution_history w @ [ex]
     \<and> (logs_dir_ok w \<longrightarrow> fst (execute_pipeline cfg inp m eid w) = Inr ex)
     \<and> (status ex = COMPLETED \<longrightarrow>
          map step_name (steps ex) = filter (step_enabled cfg) (get_step_sequence cfg m)
          \<and> (\<forall>s\<in>set (steps ex). step_name s \<in> set (default_flow cfg) \<longrightarrow>
                step_status s = COMPLETED
                \<or> (step_status s = FAILED
                    \<and> (\<exists>fb. get_fallback_data cfg (step_name s) = Some fb \<and> fb \<noteq> []
                          \<and> fst ` set fb \<subseteq> fst ` set (final_context cfg inp m eid w)))))"
proof -
  let ?seq = "get_step_sequence cfg m"
  from execute_pipeline_result[of cfg inp m eid w] obtain ex raised ex1 w1 where
    h: "execution_history (snd (execute_pipeline cfg inp m eid w)) = execution_history w @ [ex]"
    and ret: "fst (execute_pipeline cfg inp m eid w)
         = (if logs_dir_ok w then Inr ex else Inl (OSError ''logs''))"
    and o: "run_outcome cfg ?seq (new_execution eid m w) raised ex1 (steps ex)"
    and st: "status ex = (case raised of
                      None \<Rightarrow> if status ex1 = FAILED then FAILED else COMPLETED
                    | Some e \<Rightarrow> FAILED)"
    and r: "run_steps cfg ?seq inp (new_execution eid m w) w
                 = (raised, final_context cfg inp m eid w, ex1, w1)"
    and se: "steps ex1 = steps ex"
    by blast
  have main: "map step_name (steps ex) = filter (step_enabled cfg) ?seq
          \<and> (\<forall>s\<in>set (steps ex). step_name s \<in> set (default_flow cfg) \<longrightarrow>
                step_status s = COMPLETED
                \<or> (step_status s = FAILED
                    \<and> (\<exists>fb. get_fallback_data cfg (step_name s) = Some fb \<and> fb \<noteq> []
                          \<and> fst ` set fb \<subseteq> fst ` set (final_context cfg inp m eid w))))"
    if c: "status ex = COMPLETED"
  proof -
    from run_outcome_base[OF o]
    have tm: "list_all (\<lambda>s. step_status s = COMPLETED \<or> step_status s = FAILED) (steps ex)"
      by simp
    have "steps ex1 = steps (new_execution eid m w) @ steps ex"
      using se by (simp add: new_execution_fields)
    from run_steps_context[OF r this]
    have ctx: "list_all (\<lambda>s. step_status s = FAILED \<and> step_name s \<in> set (default_flow cfg)
                   \<and> usable_fallback cfg (step_name s)
                 \<longrightarrow> (\<exists>fb. get_fallback_data cfg (step_name s) = Some fb \<and> fb \<noteq> []
                          \<and> fst ` set fb \<subseteq> fst ` set (final_context cfg inp m eid w)))
               (steps ex)"
      by simp
    from o show ?thesis
    proof (cases rule: run_outcomeE)
      case (stopped pre s e k)
      with st c show ?thesis by simp
    next
      case (raised e k)
      with st c show ?thesis by simp
    next
      case through
      have "step_status s = COMPLETED
                \<or> (step_status s = FAILED
                    \<and> (\<exists>fb. get_fallback_data cfg (step_name s) = Some fb \<and> fb \<noteq> []
                          \<and> fst ` set fb \<subseteq> fst ` set (final_context cfg inp m eid w)))"
        if s: "s \<in> set (steps ex)" and cr: "step_name s \<in> set (default_flow cfg)" for s
      proof (cases "step_status s = COMPLETED")
        case True
        then show ?thesis by simp
      next
        case False
        with tm s have f: "step_status s = FAILED" by (auto simp: list_all_iff)
        from through(4) s have "\<not> fatal cfg s" by (auto simp: list_all_iff)
        with f cr have "usable_fallback cfg (step_name s)" by (simp add: fatal_def)
        with ctx s f cr show ?thesis by (auto simp: list_all_iff)
      qed
      with through(5) show ?thesis by blast
    qed
  qed
  from h ret main show ?thesis
    by (intro exI[of _ ex]) simp
qed


theorem completed_run_critical_steps_witness:
  "logs_dir_ok (demo_world [(1 / 5, HttpFail ''404''), (1 / 5, HttpFail ''404''),
                   (1 / 5, HttpOk [(''response_text'', ''r'')])])
   \<and> (\<exists>ex. fst (execute_pipeline demo_config_fallback demo_input QUICK (Some ''e1'')
          (demo_world [(1 / 5, HttpFail ''404''), (1 / 5, HttpFail ''404''),
                   (1 / 5, HttpOk [(''response_text'', ''r'')])])) = Inr ex
        \<and> status ex = COMPLETED
        \<and> map step_name (steps ex) = [''summarize'', ''respond'']
        \<and> step_name (steps ex ! 0) \<in> set (default_flow demo_config_fallback)
        \<and> step_status (steps ex ! 0) = FAILED
        \<and> (\<exists>fb. get_fallback_data demo_config_fallback ''summarize'' = Some fb \<and> fb \<noteq> []
              \<and> fst ` set fb \<subseteq> fst ` set (final_context demo_config_fallback demo_input QUICK
                   (Some ''e1'')
                   (demo_world [(1 / 5, HttpFail ''404''), (1 / 5, HttpFail ''404''),
                     (1 / 5, HttpOk [(''response_text'', ''r'')])]))))"
proof -
  let ?w = "demo_world [(1 / 5, HttpFail ''404''), (1 / 5, HttpFail ''404''),
                   (1 / 5, HttpOk [(''response_text'', ''r'')])]"
  let ?run = "execute_pipeline demo_config_fallback demo_input QUICK (Some ''e1'') ?w"
  have l: "logs_dir_ok ?w" by (simp add: demo_defs)
  have ev: "\<exists>x. fst ?run = Inr x \<and> status x = COMPLETED \<and> length (steps x) = 2
      \<and> step_status (steps x ! 0) = FAILED \<and> step_name (steps x ! 0) = ''summarize''"
    by (simp add: demo_defs exec_defs pipeline_defs retry_loop.simps)
  have sq: "filter (step_enabled demo_config_fallback) (get_step_sequence demo_config_fallback QUICK)
      = [''summarize'', ''respond'']"
    by (simp add: demo_defs step_enabled_def get_step_config_def get_step_sequence_def)
  have c: "''summarize'' \<in> set (default_flow demo_config_fallback)"
    by (simp add: demo_defs)
  from completed_run_critical_steps[of demo_config_fallback demo_input QUICK "Some ''e1''" ?w]
  obtain ex where r: "logs_dir_ok ?w \<longrightarrow> fst ?run = Inr ex"
    and a: "status ex = COMPLETED \<longrightarrow>
          map step_name (steps ex)
            = filter (step_enabled demo_config_fallback) (get_step_sequence demo_config_fallback QUICK)
          \<and> (\<forall>s\<in>set (steps ex). step_name s \<in> set (default_flow demo_config_fallback) \<longrightarrow>
                step_status s = COMPLETED
                \<or> (step_status s = FAILED
                    \<and> (\<exists>fb. get_fallback_data demo_config_fallback (step_name s) = Some fb
                          \<and> fb \<noteq> []
                          \<and> fst ` set fb \<subseteq> fst ` set (final_context demo_config_fallback
                               demo_input QUICK (Some ''e1'') ?w))))"
    by blast
  from r l have ret: "fst ?run = Inr ex" by simp
  with ev have s: "status ex = COMPLETED" "length (steps ex) = 2"
    "step_status (steps ex ! 0) = FAILED" "step_name (steps ex ! 0) = ''summarize''" by auto
  from s(2) have m: "steps ex ! 0 \<in> set (steps ex)" by simp
  from a s(1) sq have n: "map step_name (steps ex) = [''summarize'', ''respond'']" by simp
  from a s(1) m have "step_name (steps ex ! 0) \<in> set (default_flow demo_config_fallback) \<longrightarrow>
                step_status (steps ex ! 0) = COMPLETED
                \<or> (step_status (steps ex ! 0) = FAILED
                    \<and> (\<exists>fb. get_fallback_data demo_config_fallback (step_name (steps ex ! 0)) = Some fb
                          \<and> fb \<noteq> []
                          \<and> fst ` set fb \<subseteq> fst ` set (final_context demo_config_fallback
                               demo_input QUICK (Some ''e1'') ?w)))"
    by blast
  with s(3,4) c have "\<exists>fb. get_fallback_data demo_config_fallback ''summarize'' = Some fb
      \<and> fb \<noteq> []
      \<and> fst ` set fb \<subseteq> fst ` set (final_context demo_config_fallback
                               demo_input QUICK (Some ''e1'') ?w)"
    by simp
  with l ret s n c show ?thesis by simp
qed

section \<open>The synchronous orchestrator\<close>

lemma simple_execute_single_step_frame:
  "simple_execute_single_step cfg sc data w = (r, w1) \<Longrightarrow>
   execution_history w1 = execution_history w"
  by (auto simp: simple_execute_single_step_def simple_session_post_def Let_def
           split: option.splits if_splits prod.splits)

lemma simple_retry_loop_Inr:
  "simple_execute_single_step cfg sc data w = (Inr res, w1) \<Longrightarrow>
   simple_retry_loop cfg sc data rc attempt w = (Inr res, w1)"
  by (subst simple_retry_loop.simps) simp

lemma simple_retry_loop_retry:
  "simple_execute_single_step cfg sc data w = (Inl e, w1) \<Longrightarrow> attempt < rc \<Longrightarrow>
   simple_retry_loop cfg sc data rc attempt w
     = simple_retry_loop cfg sc data rc (Suc attempt) (sleep 1 w1)"
  by (subst simple_retry_loop.simps) simp

lemma simple_retry_loop_last:
  "simple_execute_single_step cfg sc data w = (Inl e, w1) \<Longrightarrow> \<not> attempt < rc \<Longrightarrow>
   simple_retry_loop cfg sc data rc attempt w = (Inl e, w1)"
  by (subst simple_retry_loop.simps) simp

lemma simple_retry_loop_frame:
  "simple_retry_loop cfg sc data rc attempt w = (r, w') \<Longrightarrow>
     execution_history w' = execution_history w"
proof (induction cfg sc data rc attempt w rule: simple_retry_loop.induct)
  case (1 cfg sc data rc attempt w)
  obtain r1 w1 where t: "simple_execute_single_step cfg sc data w = (r1, w1)" by force
  from simple_execute_single_step_frame[OF t]
  have f: "execution_history w1 = execution_history w" .
  show ?case
  proof (cases r1)
    case (Inr res)
    with t "1.prems" f show ?thesis by (simp add: simple_retry_loop_Inr)
  next
    case (Inl e)
    show ?thesis
    proof (cases "attempt < rc")
      case True
      from "1.prems" have "simple_retry_loop cfg sc data rc (Suc attempt) (sleep 1 w1) = (r, w')"
        by (simp add: simple_retry_loop_retry[OF t[unfolded Inl] True])
      from "1.IH"[OF t[symmetric] Inl True this] f show ?thesis
        by (simp add: sleep_def)
    next
      case False
      from "1.prems" f show ?thesis
        by (simp add: simple_retry_loop_last[OF t[unfolded Inl] False])
    qed
  qed
qed

lemma simple_run_steps_cases [case_names unknown disabled ok failed]:
  obtains
    (unknown) "simple_get_step_config cfg nm = None"
      "simple_run_steps cfg eid inp (nm # rest) cur ex w
         = simple_run_steps cfg eid inp rest cur ex w"
  | (disabled) sc where "simple_get_step_config cfg nm = Some sc" "cfg_enabled sc = Some False"
      "simple_run_steps cfg eid inp (nm # rest) cur ex w
         = simple_run_steps cfg eid inp rest cur ex w"
  | (ok) sc res w1 where "simple_get_step_config cfg nm = Some sc"
      "cfg_enabled sc \<noteq> Some False"
      "simple_execute_step_with_retry cfg sc cur w = (Inr res, w1)"
      "simple_run_steps cfg eid inp (nm # rest) cur ex w =
         simple_run_steps cfg eid inp rest (dict_update cur res)
           (ex\<lparr>steps := steps ex
               @ [step_completed (new_step nm sc cur w) res (clock w) w1]\<rparr>) w1"
  | (failed) sc e w1 where "simple_get_step_config cfg nm = Some sc"
      "cfg_enabled sc \<noteq> Some False"
      "simple_execute_step_with_retry cfg sc cur w = (Inl e, w1)"
      "simple_run_steps cfg eid inp (nm # rest) cur ex w =
         simple_run_steps cfg eid inp rest (dict_update cur (mock_data nm eid inp))
           (ex\<lparr>steps := steps ex @ [step_failed (new_step nm sc cur w) e (clock w) w1]\<rparr>) w1"
proof (cases "simple_get_step_config cfg nm")
  case None
  then show ?thesis using unknown by simp
next
  case (Some sc)
  show ?thesis
  proof (cases "cfg_enabled sc = Some False")
    case True
    with Some show ?thesis using disabled by simp
  next
    case False
    then have en: "(case cfg_enabled sc of None \<Rightarrow> True | Some b \<Rightarrow> b)"
      by (cases "cfg_enabled sc") auto
    obtain r w1 where x: "simple_execute_step_with_retry cfg sc cur w = (r, w1)" by force
    show ?thesis
    proof (cases r)
      case (Inr res)
      with Some False en x show ?thesis using ok[of sc res w1] by (simp add: Let_def)
    next
      case (Inl e)
      with Some False en x show ?thesis using failed[of sc e w1] by (simp add: Let_def)
    qed
  qed
qed

lemma simple_run_steps_outcome:
  "simple_run_steps cfg eid inp seq cur ex w = (cur', ex', w') \<Longrightarrow>
   execution_history w' = execution_history w
   \<and> status ex' = status ex
   \<and> (\<exists>new. steps ex' = steps ex @ new
         \<and> list_all (\<lambda>s. step_status s = COMPLETED \<or> step_status s = FAILED) new
         \<and> map step_name new = filter (simple_step_enabled cfg) seq)"
proof (induction seq arbitrary: cur ex w)
  case Nil
  then show ?case by simp
next
  case (Cons nm rest)
  have step: ?case
    if rec: "simple_run_steps cfg eid inp rest cur1 (ex\<lparr>steps := steps ex @ [s0]\<rparr>) w1
          = (cur', ex', w')"
      and h: "execution_history w1 = execution_history w"
      and s0: "step_name s0 = nm" "step_status s0 = COMPLETED \<or> step_status s0 = FAILED"
      and en: "simple_step_enabled cfg nm"
    for cur1 s0 w1
  proof -
    from Cons.IH[OF rec] obtain new where
      n: "execution_history w' = execution_history w1" "status ex' = status ex"
        "steps ex' = (steps ex @ [s0]) @ new"
        "list_all (\<lambda>s. step_status s = COMPLETED \<or> step_status s = FAILED) new"
        "map step_name new = filter (simple_step_enabled cfg) rest"
      by auto
    have "steps ex' = steps ex @ (s0 # new)"
      "list_all (\<lambda>s. step_status s = COMPLETED \<or> step_status s = FAILED) (s0 # new)"
      "map step_name (s0 # new) = filter (simple_step_enabled cfg) (nm # rest)"
      using n s0 en by simp_all
    with n(1,2) h show ?thesis by metis
  qed
  show ?case
  proof (cases rule: simple_run_steps_cases[of cfg nm eid inp rest cur ex w])
    case unknown
    then have "\<not> simple_step_enabled cfg nm" by (simp add: simple_step_enabled_def)
    with Cons.IH[OF Cons.prems[unfolded unknown(2)]] show ?thesis by simp
  next
    case (disabled sc)
    then have "\<not> simple_step_enabled cfg nm" by (simp add: simple_step_enabled_def)
    with Cons.IH[OF Cons.prems[unfolded disabled(3)]] show ?thesis by simp
  next
    case (ok sc res w1)
    have en: "simple_step_enabled cfg nm"
      using ok(1,2) by (auto simp: simple_step_enabled_def split: option.splits)
    have h: "execution_history w1 = execution_history w"
      using ok(3) simple_retry_loop_frame by (simp add: simple_execute_step_with_retry_def)
    show ?thesis
      by (rule step[OF Cons.prems[unfolded ok(4)] h _ _ en])
        (simp_all add: step_completed_def new_step_def)
  next
    case (failed sc e w1)
    have en: "simple_step_enabled cfg nm"
      using failed(1,2) by (auto simp: simple_step_enabled_def split: option.splits)
    have h: "execution_history w1 = execution_history w"
      using failed(3) simple_retry_loop_frame by (simp add: simple_execute_step_with_retry_def)
    show ?thesis
      by (rule step[OF Cons.prems[unfolded failed(4)] h _ _ en])
        (simp_all add: step_failed_def new_step_def)
  qed
qed

lemma simple_execute_pipeline_result:
  "\<exists>new. execution_history (snd (simple_execute_pipeline cfg inp m eid w))
       = execution_history w @ [fst (simple_execute_pipeline cfg inp m eid w)]
     \<and> status (fst (simple_execute_pipeline cfg inp m eid w)) = COMPLETED
     \<and> steps (fst (simple_execute_pipeline cfg inp m eid w)) = new
     \<and> list_all (\<lambda>s. step_status s = COMPLETED \<or> step_status s = FAILED) new
     \<and> map step_name new = filter (simple_step_enabled cfg) (get_step_sequence cfg m)"
proof -
  obtain cur' ex1 w1 where
    r: "simple_run_steps cfg (execution_id (new_execution eid m w)) inp (get_step_sequence cfg m)
          inp (new_execution eid m w) w = (cur', ex1, w1)"
    by (metis prod_cases3)
  from simple_run_steps_outcome[OF r] obtain new where
    n: "execution_history w1 = execution_history w" "steps ex1 = new"
      "list_all (\<lambda>s. step_status s = COMPLETED \<or> step_status s = FAILED) new"
      "map step_name new = filter (simple_step_enabled cfg) (get_step_sequence cfg m)"
    by (auto simp: new_execution_fields)
  from r n show ?thesis
    by (simp add: simple_execute_pipeline_def Let_def)
qed

lemmas simple_defs = simple_execute_pipeline_def simple_get_step_config_def
  simple_execute_step_with_retry_def simple_execute_single_step_def simple_session_post_def
  mock_data_def

text \<open>
  Claim C8, as stated, fails: in mode full the resolved sequence is summarize, metrics,
  respond, and metrics is disabled. Both orchestrators return two step records, for
  summarize and respond; there is no record for metrics and none with status SKIPPED.
\<close>

theorem disabled_step_skipped_record_counterexample:
  "get_step_sequence demo_config FULL = [''summarize'', ''metrics'', ''respond'']
   \<and> get_step_config demo_config ''metrics'' = Inr metrics_step
   \<and> cfg_enabled metrics_step = Some False
   \<and> map_option (map step_name \<circ> steps)
        (returned (execute_pipeline demo_config demo_input FULL (Some ''e1'')
           (demo_world [(1 / 5, HttpOk [(''summary'', ''s'')]),
                        (1 / 5, HttpOk [(''response_text'', ''r'')])])))
       = Some [''summarize'', ''respond'']
   \<and> map_option (map step_status \<circ> steps)
        (returned (execute_pipeline demo_config demo_input FULL (Some ''e1'')
           (demo_world [(1 / 5, HttpOk [(''summary'', ''s'')]),
                        (1 / 5, HttpOk [(''response_text'', ''r'')])])))
       = Some [COMPLETED, COMPLETED]
   \<and> map step_name (steps (fst (simple_execute_pipeline demo_config demo_input FULL (Some ''e1'')
           (demo_world [(1 / 5, HttpOk [(''summary'', ''s'')]),
                        (1 / 5, HttpOk [(''response_text'', ''r'')])]))))
       = [''summarize'', ''respond'']"
  by (simp add: demo_defs exec_defs pipeline_defs simple_defs retry_loop.simps
        simple_retry_loop.simps returned_def)

text \<open>
  Claim C8, amended: a disabled step gets no record, and the loop goes on with the next
  name. For the record of a run of PipelineOrchestrator (returned whenever the log
  directory can be created) no step record has status SKIPPED, every step record belongs
  to an enabled step, and when the status is COMPLETED the step list holds exactly one
  record per enabled name of the resolved sequence, in order. The step list that
  SimplePipelineOrchestrator returns never holds a SKIPPED record and always holds exactly
  one record per name it takes as enabled.
\<close>

theorem disabled_steps_leave_no_record:
  "(\<exists>ex. execution_history (snd (execute_pipeline cfg inp m eid w)) = execution_history w @ [ex]
      \<and> (logs_dir_ok w \<longrightarrow> fst (execute_pipeline cfg inp m eid w) = Inr ex)
      \<and> SKIPPED \<notin> set (map step_status (steps ex))
      \<and> list_all (step_enabled cfg) (map step_name (steps ex))
      \<and> (status ex = COMPLETED \<longrightarrow>
            map step_name (steps ex) = filter (step_enabled cfg) (get_step_sequence cfg m)))
   \<and> SKIPPED \<notin> set (map step_status (steps (fst (simple_execute_pipeline cfg inp m eid w))))
   \<and> map step_name (steps (fst (simple_execute_pipeline cfg inp m eid w)))
       = filter (simple_step_enabled cfg) (get_step_sequence cfg m)"
proof (intro conjI)
  let ?seq = "get_step_sequence cfg m"
  from execute_pipeline_result[of cfg inp m eid w] obtain ex raised ex1 where
    h: "execution_history (snd (execute_pipeline cfg inp m eid w)) = execution_history w @ [ex]"
    and ret: "fst (execute_pipeline cfg inp m eid w)
         = (if logs_dir_ok w then Inr ex else Inl (OSError ''logs''))"
    and o: "run_outcome cfg ?seq (new_execution eid m w) raised ex1 (steps ex)"
    and st: "status ex = (case raised of
                      None \<Rightarrow> if status ex1 = FAILED then FAILED else COMPLETED
                    | Some e \<Rightarrow> FAILED)"
    by blast
  from run_outcome_base[OF o]
  have "list_all (\<lambda>s. step_status s = COMPLETED \<or> step_status s = FAILED) (steps ex)"
    by simp
  then have sk: "SKIPPED \<notin> set (map step_status (steps ex))"
    by (auto simp: list_all_iff)
  have nm: "\<exists>k. map step_name (steps ex) = filter (step_enabled cfg) (take k ?seq)
      \<and> (status ex = COMPLETED \<longrightarrow> take k ?seq = ?seq)"
    using o
  proof (cases rule: run_outcomeE)
    case through
    then have "map step_name (steps ex) = filter (step_enabled cfg) (take (length ?seq) ?seq)"
      by simp
    then show ?thesis by (intro exI[of _ "length ?seq"]) simp
  next
    case (stopped pre s e k)
    with st have "status ex \<noteq> COMPLETED" by simp
    with stopped(9) show ?thesis by (intro exI[of _ "Suc k"]) simp
  next
    case (raised e k)
    with st have "status ex \<noteq> COMPLETED" by simp
    with raised(7) show ?thesis by (intro exI[of _ k]) simp
  qed
  then obtain k where k: "map step_name (steps ex) = filter (step_enabled cfg) (take k ?seq)"
    "status ex = COMPLETED \<longrightarrow> take k ?seq = ?seq" by blast
  have en: "list_all (step_enabled cfg) (map step_name (steps ex))"
    unfolding k(1) by (simp add: list_all_iff)
  have cp: "status ex = COMPLETED \<longrightarrow> map step_name (steps ex) = filter (step_enabled cfg) ?seq"
    using k by simp
  from h ret sk en cp
  show "\<exists>ex. execution_history (snd (execute_pipeline cfg inp m eid w)) = execution_history w @ [ex]
      \<and> (logs_dir_ok w \<longrightarrow> fst (execute_pipeline cfg inp m eid w) = Inr ex)
      \<and> SKIPPED \<notin> set (map step_status (steps ex))
      \<and> list_all (step_enabled cfg) (map step_name (steps ex))
      \<and> (status ex = COMPLETED \<longrightarrow>
            map step_name (steps ex) = filter (step_enabled cfg) (get_step_sequence cfg m))"
    by (intro exI[of _ ex]) simp
next
  from simple_execute_pipeline_result[of cfg inp m eid w]
  show "SKIPPED \<notin> set (map step_status (steps (fst (simple_execute_pipeline cfg inp m eid w))))"
    by (auto simp: list_all_iff)
next
  from simple_execute_pipeline_result[of cfg inp m eid w]
  show "map step_name (steps (fst (simple_execute_pipeline cfg inp m eid w)))
       = filter (simple_step_enabled cfg) (get_step_sequence cfg m)"
    by auto
qed

theorem disabled_steps_leave_no_record_witness:
  "logs_dir_ok (demo_world [(1 / 5, HttpOk [(''summary'', ''s'')]),
                            (1 / 5, HttpOk [(''response_text'', ''r'')])])
   \<and> (\<exists>ex. fst (execute_pipeline demo_config demo_input FULL (Some ''e1'')
           (demo_world [(1 / 5, HttpOk [(''summary'', ''s'')]),
                        (1 / 5, HttpOk [(''response_text'', ''r'')])])) = Inr ex
         \<and> status ex = COMPLETED
         \<and> map step_name (steps ex) = [''summarize'', ''respond'']
         \<and> SKIPPED \<notin> set (map step_status (steps ex)))
   \<and> map step_name (steps (fst (simple_execute_pipeline demo_config demo_input FULL (Some ''e1'')
           (demo_world [(1 / 5, HttpOk [(''summary'', ''s'')]),
                        (1 / 5, HttpOk [(''response_text'', ''r'')])]))))
       = [''summarize'', ''respond'']"
proof -
  let ?w = "demo_world [(1 / 5, HttpOk [(''summary'', ''s'')]),
                        (1 / 5, HttpOk [(''response_text'', ''r'')])]"
  let ?run = "execute_pipeline demo_config demo_input FULL (Some ''e1'') ?w"
  have l: "logs_dir_ok ?w" by (simp add: demo_defs)
  have ev: "\<exists>x. fst ?run = Inr x \<and> status x = COMPLETED"
    by (simp add: demo_defs exec_defs pipeline_defs retry_loop.simps)
  have sq: "filter (step_enabled demo_config) (get_step_sequence demo_config FULL)
      = [''summarize'', ''respond'']"
    by (simp add: demo_defs step_enabled_def get_step_config_def get_step_sequence_def)
  have sq': "filter (simple_step_enabled demo_config) (get_step_sequence demo_config FULL)
      = [''summarize'', ''respond'']"
    by (simp add: demo_defs simple_step_enabled_def simple_get_step_config_def
          get_step_sequence_def)
  note inst = disabled_steps_leave_no_record[of demo_config demo_input FULL "Some ''e1''" ?w]
  from inst obtain ex where r: "logs_dir_ok ?w \<longrightarrow> fst ?run = Inr ex"
    and sk: "SKIPPED \<notin> set (map step_status (steps ex))"
    and a: "status ex = COMPLETED \<longrightarrow>
            map step_name (steps ex)
              = filter (step_enabled demo_config) (get_step_sequence demo_config FULL)"
    by blast
  from r l have ret: "fst ?run = Inr ex" by simp
  with ev have s: "status ex = COMPLETED" by auto
  with a sq have n: "map step_name (steps ex) = [''summarize'', ''respond'']" by simp
  from inst sq' have "map step_name (steps (fst (simple_execute_pipeline demo_config demo_input
      FULL (Some ''e1'') ?w))) = [''summarize'', ''respond'']"
    by simp
  with l ret s n sk show ?thesis by simp
qed

section \<open>Metrics over the history\<close>

lemma execute_pipeline_history:
  "\<exists>ex. execution_history (snd (execute_pipeline cfg inp m eid w)) = execution_history w @ [ex]
     \<and> (status ex = COMPLETED \<or> status ex = FAILED)"
proof -
  from execute_pipeline_result[of cfg inp m eid w] show ?thesis
  proof (elim exE conjE)
    fix ex ex1 :: PipelineExecution and raised :: "exn option"
    assume h: "execution_history (snd (execute_pipeline cfg inp m eid w))
        = execution_history w @ [ex]"
      and st: "status ex = (case raised of
                      None \<Rightarrow> if status ex1 = FAILED then FAILED else COMPLETED
                    | Some e \<Rightarrow> FAILED)"
    from st have "status ex = COMPLETED \<or> status ex = FAILED"
      by (simp split: option.splits)
    with h show ?thesis by blast
  qed
qed

lemma reachable_terminal:
  "reachable cfg w \<Longrightarrow>
   list_all (\<lambda>e. status e = COMPLETED \<or> status e = FAILED) (execution_history w)"
proof (induction rule: reachable.induct)
  case (r_init w)
  then show ?case by simp
next
  case (r_env w t p d f)
  then show ?case by simp
next
  case (r_exec w inp m eid r w')
  from execute_pipeline_history[of cfg inp m eid w] obtain ex where
    h: "execution_history (snd (execute_pipeline cfg inp m eid w)) = execution_history w @ [ex]"
    and "status ex = COMPLETED \<or> status ex = FAILED"
    by (elim exE conjE)
  with r_exec.hyps(2) r_exec.IH show ?case by simp
next
  case (r_simple w inp m eid ex w')
  from simple_execute_pipeline_result[of cfg inp m eid w] r_simple.hyps(2)
  have "execution_history w' = execution_history w @ [ex]" "status ex = COMPLETED"
    by auto
  with r_simple.IH show ?case by simp
qed

lemma count_terminal:
  "list_all (\<lambda>e. status e = COMPLETED \<or> status e = FAILED) h \<Longrightarrow>
   length (filter (\<lambda>e. status e = COMPLETED) h) + length (filter (\<lambda>e. status e = FAILED) h)
     = length h"
  by (induction h) auto

text \<open>
  Claim C10: on an empty history \<^verbatim>\<open>get_pipeline_metrics\<close> returns exactly
  \<^verbatim>\<open>{"total_executions": 0}\<close>; on the non-empty history of any orchestrator state that
  \<^verbatim>\<open>execute_pipeline\<close> calls (of either class) can produce, the reported
  successful_executions and failed_executions add up to total_executions, which is the
  length of the history.
\<close>

theorem pipeline_metrics_counts:
  "get_pipeline_metrics [] = [(''total_executions'', MInt 0)]
   \<and> (reachable cfg w \<and> execution_history w \<noteq> [] \<longrightarrow>
        (\<exists>s f. map_of (get_pipeline_metrics (execution_history w)) ''successful_executions''
                   = Some (MInt s)
              \<and> map_of (get_pipeline_metrics (execution_history w)) ''failed_executions''
                   = Some (MInt f)
              \<and> map_of (get_pipeline_metrics (execution_history w)) ''total_executions''
                   = Some (MInt (s + f))
              \<and> s + f = int (length (execution_history w))))"
proof (intro conjI impI)
  show "get_pipeline_metrics [] = [(''total_executions'', MInt 0)]"
    by (simp add: get_pipeline_metrics_def)
next
  assume a: "reachable cfg w \<and> execution_history w \<noteq> []"
  let ?h = "execution_history w"
  let ?s = "int (length (filter (\<lambda>e. status e = COMPLETED) ?h))"
  let ?f = "int (length (filter (\<lambda>e. status e = FAILED) ?h))"
  from a reachable_terminal have "list_all (\<lambda>e. status e = COMPLETED \<or> status e = FAILED) ?h"
    by blast
  from count_terminal[OF this] have sum: "?s + ?f = int (length ?h)" by linarith
  have m: "map_of (get_pipeline_metrics ?h) ''successful_executions'' = Some (MInt ?s)"
    "map_of (get_pipeline_metrics ?h) ''failed_executions'' = Some (MInt ?f)"
    "map_of (get_pipeline_metrics ?h) ''total_executions'' = Some (MInt (int (length ?h)))"
    using a by (simp_all add: get_pipeline_metrics_def Let_def)
  from m sum show "\<exists>s f. map_of (get_pipeline_metrics ?h) ''successful_executions''
                   = Some (MInt s)
              \<and> map_of (get_pipeline_metrics ?h) ''failed_executions'' = Some (MInt f)
              \<and> map_of (get_pipeline_metrics ?h) ''total_executions'' = Some (MInt (s + f))
              \<and> s + f = int (length ?h)"
    by (intro exI[of _ ?s] exI[of _ ?f]) simp
qed

theorem pipeline_metrics_counts_witness:
  "reachable demo_config
      (snd (execute_pipeline demo_config demo_input QUICK (Some ''e1'') (demo_world [])))
   \<and> map status (execution_history
        (snd (execute_pipeline demo_config demo_input QUICK (Some ''e1'') (demo_world []))))
       = [FAILED]
   \<and> (\<exists>s f. map_of (get_pipeline_metrics (execution_history
           (snd (execute_pipeline demo_config demo_input QUICK (Some ''e1'') (demo_world [])))))
           ''successful_executions'' = Some (MInt s)
        \<and> map_of (get_pipeline_metrics (execution_history
           (snd (execute_pipeline demo_config demo_input QUICK (Some ''e1'') (demo_world [])))))
           ''failed_executions'' = Some (MInt f)
        \<and> map_of (get_pipeline_metrics (execution_history
           (snd (execute_pipeline demo_config demo_input QUICK (Some ''e1'') (demo_world [])))))
           ''total_executions'' = Some (MInt (s + f))
        \<and> s + f = 1)"
proof -
  let ?w = "snd (execute_pipeline demo_config demo_input QUICK (Some ''e1'') (demo_world []))"
  have "reachable demo_config (demo_world [])"
    by (rule r_init) (simp add: demo_defs)
  then have r: "reachable demo_config ?w"
    by (rule r_exec[where inp = demo_input and m = QUICK and eid = "Some ''e1''"
          and r = "fst (execute_pipeline demo_config demo_input QUICK (Some ''e1'') (demo_world []))"])
       simp
  have h: "map status (execution_history ?w) = [FAILED]"
    by (simp add: demo_defs exec_defs pipeline_defs retry_loop.simps)
  then have ne: "execution_history ?w \<noteq> []" "int (length (execution_history ?w)) = 1"
    by (auto dest: arg_cong[where f = length])
  from pipeline_metrics_counts[of demo_config ?w] r ne h show ?thesis
    by simp
qed

section \<open>The two orchestrators side by side\<close>

lemma adapter_send_no_retry:
  assumes "no_adapter_retry p"
  shows "adapter_send n p = adapter_send 0 p"
    and "no_adapter_retry (snd (snd (adapter_send 0 p)))"
proof -
  show "adapter_send n p = adapter_send 0 p"
  proof (cases p)
    case Nil
    then show ?thesis by simp
  next
    case (Cons a rest)
    obtain dt r where a: "a = (dt, r)" by force
    from assms Cons a have "\<not> adapter_retries r" by (simp add: no_adapter_retry_def)
    with Cons a show ?thesis by (cases r) simp_all
  qed
  show "no_adapter_retry (snd (snd (adapter_send 0 p)))"
  proof (cases p)
    case Nil
    then show ?thesis by (simp add: no_adapter_retry_def)
  next
    case (Cons a rest)
    obtain dt r where a: "a = (dt, r)" by force
    from assms Cons a show ?thesis by (cases r) (simp_all add: no_adapter_retry_def)
  qed
qed

text \<open>
  The adapter is the one place where the two step executors treat the same downstream
  answers differently: an answer the adapter retries, followed by a success, completes the
  call of PipelineOrchestrator and fails the call of SimplePipelineOrchestrator.
\<close>

lemma adapter_retry_difference:
  "fst (execute_single_step demo_config respond_step demo_input
          (demo_world [(1 / 5, HttpRetry ''503''), (1 / 5, HttpOk [(''response_text'', ''r'')])]))
     = Inr [(''response_text'', ''r'')]
   \<and> fst (simple_execute_single_step demo_config respond_step demo_input
          (demo_world [(1 / 5, HttpRetry ''503''), (1 / 5, HttpOk [(''response_text'', ''r'')])]))
     = Inl (RequestException ''503'')"
  by (simp add: demo_defs execute_single_step_def simple_execute_single_step_def
        session_post_def simple_session_post_def has_key_def Let_def)

lemma single_step_agree:
  assumes "pending ws = pending w" and "no_adapter_retry (pending w)"
  shows "fst (simple_execute_single_step cfg sc data ws) = fst (execute_single_step cfg sc data w)"
    and "pending (snd (simple_execute_single_step cfg sc data ws))
           = pending (snd (execute_single_step cfg sc data w))"
    and "no_adapter_retry (pending (snd (execute_single_step cfg sc data w)))"
  using assms adapter_send_no_retry(1)[OF assms(2), of 3]
    adapter_send_no_retry(2)[OF assms(2)]
  by (auto simp: execute_single_step_def simple_execute_single_step_def session_post_def
        simple_session_post_def Let_def split: option.splits prod.splits)

lemma try_single_step_Inr:
  "try_single_step cfg sc data w = (Inr res, w1) \<Longrightarrow>
   \<exists>w0. execute_single_step cfg sc data w = (Inr res, w0) \<and> pending w1 = pending w0"
  by (auto simp: try_single_step_def split: prod.splits sum.splits)

lemma try_single_step_Inl:
  "try_single_step cfg sc data w = (Inl e, w1) \<Longrightarrow>
   execute_single_step cfg sc data w = (Inl e, w1)
   \<or> circuit_breakers w (cfg_component sc) = None"
  by (auto simp: try_single_step_def reset_circuit_breaker_def
           split: prod.splits sum.splits option.splits dest!: execute_single_step_frame)

lemma retry_loop_breaker_exists:
  "retry_loop cfg sc data rc attempt w = (Inr res, w') \<Longrightarrow>
   \<exists>b. circuit_breakers w (cfg_component sc) = Some b"
proof (induction cfg sc data rc attempt w rule: retry_loop.induct)
  case (1 cfg sc data rc attempt w)
  obtain r1 w1 where t: "try_single_step cfg sc data w = (r1, w1)" by force
  show ?case
  proof (cases r1)
    case (Inr res1)
    with t show ?thesis
      by (auto simp: try_single_step_def reset_circuit_breaker_def
               split: prod.splits sum.splits option.splits dest!: execute_single_step_frame)
  next
    case (Inl e)
    with t have cb: "circuit_breakers w1 = circuit_breakers w"
      by (simp add: try_single_step_failed)
    show ?thesis
    proof (cases "attempt < rc")
      case True
      note unf = retry_loop_retry[OF t[unfolded Inl] True]
      show ?thesis
      proof (cases "retry_delay (retry_delays cfg) attempt")
        case (Inl e')
        with unf "1.prems" show ?thesis by simp
      next
        case (Inr d)
        with unf "1.prems"
        have "retry_loop cfg sc data rc (Suc attempt) (sleep d w1) = (Inr res, w')" by simp
        from "1.IH"[OF t[symmetric] \<open>r1 = Inl e\<close> True Inr this] cb
        show ?thesis by (simp add: sleep_def)
      qed
    next
      case False
      from retry_loop_last[OF t[unfolded Inl] False] "1.prems" show ?thesis
        by (auto split: sum.splits)
    qed
  qed
qed

lemma retry_loop_simulated:
  "retry_loop cfg sc data rc attempt w = (Inr res, w') \<Longrightarrow> pending ws = pending w \<Longrightarrow>
   no_adapter_retry (pending w) \<Longrightarrow>
   \<exists>ws'. simple_retry_loop cfg sc data rc attempt ws = (Inr res, ws')
      \<and> pending ws' = pending w' \<and> no_adapter_retry (pending w')"
proof (induction cfg sc data rc attempt w arbitrary: ws rule: retry_loop.induct)
  case (1 cfg sc data rc attempt w)
  obtain r1 w1 where t: "try_single_step cfg sc data w = (r1, w1)" by force
  obtain rs ws1 where ts: "simple_execute_single_step cfg sc data ws = (rs, ws1)" by force
  note pe = single_step_agree[OF "1.prems"(2,3), of cfg sc data]
  show ?case
  proof (cases r1)
    case (Inr res1)
    with t "1.prems"(1) have eq: "res1 = res" "w1 = w'" by (simp_all add: retry_loop_Inr)
    from try_single_step_Inr[OF t[unfolded Inr]] obtain w0 where
      w0: "execute_single_step cfg sc data w = (Inr res1, w0)" "pending w1 = pending w0"
      by blast
    with pe ts have "rs = Inr res1" "pending ws1 = pending w0" "no_adapter_retry (pending w0)"
      by simp_all
    with ts w0 eq show ?thesis by (simp add: simple_retry_loop_Inr)
  next
    case (Inl e)
    show ?thesis
    proof (cases "attempt < rc")
      case False
      from retry_loop_last[OF t[unfolded Inl] False] "1.prems"(1) show ?thesis
        by (auto split: sum.splits)
    next
      case True
      note unf = retry_loop_retry[OF t[unfolded Inl] True]
      show ?thesis
      proof (cases "retry_delay (retry_delays cfg) attempt")
        case (Inl e')
        with unf "1.prems"(1) show ?thesis by simp
      next
        case (Inr d)
        with unf "1.prems"(1)
        have rec: "retry_loop cfg sc data rc (Suc attempt) (sleep d w1) = (Inr res, w')" by simp
        from retry_loop_breaker_exists[OF rec] try_single_step_failed[OF t[unfolded \<open>r1 = Inl e\<close>]]
        have "circuit_breakers w (cfg_component sc) \<noteq> None" by (simp add: sleep_def)
        with try_single_step_Inl[OF t[unfolded \<open>r1 = Inl e\<close>]]
        have s: "execute_single_step cfg sc data w = (Inl e, w1)" by simp
        with pe ts have rs: "rs = Inl e" "pending ws1 = pending w1"
          "no_adapter_retry (pending w1)" by simp_all
        have p: "pending (sleep 1 ws1) = pending (sleep d w1)"
          "no_adapter_retry (pending (sleep d w1))"
          using rs by (simp_all add: sleep_def)
        from "1.IH"[OF t[symmetric] \<open>r1 = Inl e\<close> True Inr rec p]
        obtain ws' where "simple_retry_loop cfg sc data rc (Suc attempt) (sleep 1 ws1)
            = (Inr res, ws')" "pending ws' = pending w'" "no_adapter_retry (pending w')"
          by blast
        with simple_retry_loop_retry[OF ts[unfolded rs(1)] True] show ?thesis by simp
      qed
    qed
  qed
qed

lemma execute_step_with_retry_simulated:
  assumes "execute_step_with_retry cfg sc data w = (Inr res, w')" and "pending ws = pending w"
    and "no_adapter_retry (pending w)"
  shows "\<exists>ws'. simple_execute_step_with_retry cfg sc data ws = (Inr res, ws')
      \<and> pending ws' = pending w' \<and> no_adapter_retry (pending w')"
proof -
  let ?rc = "case cfg_retry_count sc of None \<Rightarrow> 1 | Some n \<Rightarrow> n"
  from assms(1) obtain cbs where
    "retry_loop cfg sc data ?rc 0 (w\<lparr>circuit_breakers := cbs\<rparr>) = (Inr res, w')"
    by (auto simp: execute_step_with_retry_def Let_def split: sum.splits prod.splits if_splits)
  from retry_loop_simulated[OF this, of ws] assms(2,3) show ?thesis
    by (simp add: simple_execute_step_with_retry_def)
qed

lemma get_step_config_simple:
  "get_step_config cfg nm = Inr sc \<Longrightarrow> simple_get_step_config cfg nm = Some sc"
  by (auto simp: get_step_config_def simple_get_step_config_def split: option.splits)

lemma simple_run_steps_skip:
  "simple_get_step_config cfg nm = Some sc \<Longrightarrow> cfg_enabled sc = Some False \<Longrightarrow>
   simple_run_steps cfg eid inp (nm # rest) cur ex w = simple_run_steps cfg eid inp rest cur ex w"
  by simp

lemma simple_run_steps_ok:
  "simple_get_step_config cfg nm = Some sc \<Longrightarrow> cfg_enabled sc = Some True \<Longrightarrow>
   simple_execute_step_with_retry cfg sc cur w = (Inr res, w1) \<Longrightarrow>
   simple_run_steps cfg eid inp (nm # rest) cur ex w =
     simple_run_steps cfg eid inp rest (dict_update cur res)
       (ex\<lparr>steps := steps ex @ [step_completed (new_step nm sc cur w) res (clock w) w1]\<rparr>) w1"
  by (simp add: Let_def)

lemma run_steps_simulated:
  "run_steps cfg seq cur ex w = (None, cur', ex', w') \<Longrightarrow> steps ex' = steps ex @ new \<Longrightarrow>
   list_all (\<lambda>s. step_status s = COMPLETED) new \<Longrightarrow> pending ws = pending w \<Longrightarrow>
   no_adapter_retry (pending w) \<Longrightarrow>
   \<exists>exs' ws' news.
      simple_run_steps cfg eid inp seq cur exs ws = (cur', exs', ws')
      \<and> pending ws' = pending w' \<and> status exs' = status exs
      \<and> steps exs' = steps exs @ news
      \<and> map step_name news = map step_name new
      \<and> map step_status news = map step_status new
      \<and> map input_data news = map input_data new
      \<and> map output_data news = map output_data new"
proof (induction seq arbitrary: cur ex w new exs ws)
  case Nil
  then show ?case by simp
next
  case (Cons nm rest)
  have failed_contra: False
    if rec: "run_steps cfg rest cur1 (ex\<lparr>steps := steps ex @ [s0]\<rparr>) w1 = (None, cur', ex', w')"
      and s0: "step_status s0 = FAILED"
    for cur1 s0 w1
  proof -
    from run_steps_outcome[OF rec] obtain new1 where
      "run_outcome cfg rest (ex\<lparr>steps := steps ex @ [s0]\<rparr>) None ex' new1" ..
    from run_outcome_base[OF this] have "steps ex' = (steps ex @ [s0]) @ new1" by simp
    with Cons.prems(2) have "new = s0 # new1" by simp
    with Cons.prems(3) s0 show False by simp
  qed
  show ?case
  proof (cases rule: run_steps_cases[of cfg nm rest cur ex w])
    case (notfound e)
    with Cons.prems(1) show ?thesis by simp
  next
    case (nokey sc)
    with Cons.prems(1) show ?thesis by simp
  next
    case (disabled sc)
    from Cons.IH[OF Cons.prems(1)[unfolded disabled(3)] Cons.prems(2,3,4,5), of exs]
      simple_run_steps_skip[OF get_step_config_simple[OF disabled(1)] disabled(2)]
    show ?thesis by simp
  next
    case (ok sc res w1)
    let ?s = "step_completed (new_step nm sc cur w) res (clock w) w1"
    note rec = Cons.prems(1)[unfolded ok(4)]
    from run_steps_outcome[OF rec] obtain new1 where
      "run_outcome cfg rest (ex\<lparr>steps := steps ex @ [?s]\<rparr>) None ex' new1" ..
    from run_outcome_base[OF this] have st: "steps ex' = (steps ex @ [?s]) @ new1" by simp
    with Cons.prems(2) have n: "new = ?s # new1" by simp
    with Cons.prems(3) have c1: "list_all (\<lambda>s. step_status s = COMPLETED) new1" by simp
    from execute_step_with_retry_simulated[OF ok(3) Cons.prems(4,5)] obtain ws1 where
      x: "simple_execute_step_with_retry cfg sc cur ws = (Inr res, ws1)"
      and p: "pending ws1 = pending w1" "no_adapter_retry (pending w1)" by blast
    let ?t = "step_completed (new_step nm sc cur ws) res (clock ws) ws1"
    let ?exs1 = "exs\<lparr>steps := steps exs @ [?t]\<rparr>"
    have st1: "steps ex' = steps (ex\<lparr>steps := steps ex @ [?s]\<rparr>) @ new1"
      using st by simp
    from Cons.IH[OF rec st1 c1 p, of ?exs1] obtain exs' ws' news1 where
      r: "simple_run_steps cfg eid inp rest (dict_update cur res) ?exs1 ws1 = (cur', exs', ws')"
        "pending ws' = pending w'" "status exs' = status ?exs1"
        "steps exs' = steps ?exs1 @ news1"
        "map step_name news1 = map step_name new1"
        "map step_status news1 = map step_status new1"
        "map input_data news1 = map input_data new1"
        "map output_data news1 = map output_data new1"
      by blast
    have u: "simple_run_steps cfg eid inp (nm # rest) cur exs ws = (cur', exs', ws')"
      using simple_run_steps_ok[OF get_step_config_simple[OF ok(1)] ok(2) x] r(1) by simp
    have f: "steps exs' = steps exs @ (?t # news1)"
      "map step_name (?t # news1) = map step_name new"
      "map step_status (?t # news1) = map step_status new"
      "map input_data (?t # news1) = map input_data new"
      "map output_data (?t # news1) = map output_data new"
      using r n by (simp_all add: step_completed_def new_step_def)
    have "status exs' = status exs" using r(3) by simp
    with u r(2) f show ?thesis by blast
  next
    case (fallback sc e w1 fb)
    from failed_contra[OF Cons.prems(1)[unfolded fallback(7)]] show ?thesis
      by (simp add: step_failed_def)
  next
    case (abort sc e w1)
    from Cons.prems(1)[unfolded abort(6)] Cons.prems(2)
    have "new = [step_failed (new_step nm sc cur w) e (clock w) w1]" by auto
    with Cons.prems(3) show ?thesis by (simp add: step_failed_def)
  next
    case (noncritical sc e w1)
    from failed_contra[OF Cons.prems(1)[unfolded noncritical(5)]] show ?thesis
      by (simp add: step_failed_def)
  qed
qed

text \<open>
  Claim C9, as stated, fails: on the same input, in mode quick, with every downstream call
  failing, PipelineOrchestrator stops at the critical step summarize and returns status
  FAILED with one step record, while SimplePipelineOrchestrator substitutes mock data, runs
  respond as well and returns status COMPLETED with two step records.
\<close>

theorem orchestrators_differ_counterexample:
  "map_option status (returned (execute_pipeline demo_config demo_input QUICK (Some ''e1'')
       (demo_world []))) = Some FAILED
   \<and> map_option (map step_status \<circ> steps)
        (returned (execute_pipeline demo_config demo_input QUICK (Some ''e1'') (demo_world [])))
       = Some [FAILED]
   \<and> status (fst (simple_execute_pipeline demo_config demo_input QUICK (Some ''e1'')
        (demo_world []))) = COMPLETED
   \<and> map step_status (steps (fst (simple_execute_pipeline demo_config demo_input QUICK
        (Some ''e1'') (demo_world [])))) = [FAILED, FAILED]"
  by (simp add: demo_defs exec_defs pipeline_defs simple_defs retry_loop.simps
        simple_retry_loop.simps returned_def)

text \<open>
  Claim C9, amended: the two orchestrators agree on the runs in which nothing fails and
  the transport adapter has nothing to retry. Whenever no downstream answer is one that
  the adapter of PipelineOrchestrator retries (a transport error or a status 429, 500, 502,
  503, 504) and PipelineOrchestrator returns an execution with status COMPLETED all of whose
  step records are COMPLETED, SimplePipelineOrchestrator, started on the same input, mode
  and sequence of downstream answers, returns status COMPLETED with the same step names,
  step statuses, step inputs and step outputs, ends with the same accumulated context and
  has consumed the same answers. (Time stamps and sleeps differ. Otherwise the two differ
  by design: adapter-level retries, circuit breaker, configured fallbacks and abort on one
  side; a plain session, built-in mock data and unconditional completion on the other.)
\<close>

theorem orchestrators_agree_when_all_steps_complete:
  assumes "fst (execute_pipeline cfg inp m eid w) = Inr ex"
    and "status ex = COMPLETED"
    and "list_all (\<lambda>s. step_status s = COMPLETED) (steps ex)"
    and "no_adapter_retry (pending w)"
  shows
   "status (fst (simple_execute_pipeline cfg inp m eid w)) = status ex
    \<and> map step_name (steps (fst (simple_execute_pipeline cfg inp m eid w)))
        = map step_name (steps ex)
    \<and> map step_status (steps (fst (simple_execute_pipeline cfg inp m eid w)))
        = map step_status (steps ex)
    \<and> map input_data (steps (fst (simple_execute_pipeline cfg inp m eid w)))
        = map input_data (steps ex)
    \<and> map output_data (steps (fst (simple_execute_pipeline cfg inp m eid w)))
        = map output_data (steps ex)
    \<and> simple_final_context cfg inp m eid w = final_context cfg inp m eid w
    \<and> pending (snd (simple_execute_pipeline cfg inp m eid w))
        = pending (snd (execute_pipeline cfg inp m eid w))"
proof -
  let ?seq = "get_step_sequence cfg m"
  let ?ex0 = "new_execution eid m w"
  from execute_pipeline_result[of cfg inp m eid w] obtain ex' raised ex1 w1 where
    ret: "fst (execute_pipeline cfg inp m eid w)
         = (if logs_dir_ok w then Inr ex' else Inl (OSError ''logs''))"
    and st: "status ex' = (case raised of
                      None \<Rightarrow> if status ex1 = FAILED then FAILED else COMPLETED
                    | Some e \<Rightarrow> FAILED)"
    and r: "run_steps cfg ?seq inp ?ex0 w = (raised, final_context cfg inp m eid w, ex1, w1)"
    and pe: "pending (snd (execute_pipeline cfg inp m eid w)) = pending w1"
    and se: "steps ex1 = steps ex'"
    by blast
  from ret assms(1) have e: "ex' = ex" by (simp split: if_splits)
  from st assms(2) e have rn: "raised = None" by (cases raised) simp_all
  have s0: "steps ex1 = steps ?ex0 @ steps ex"
    using se e by (simp add: new_execution_fields)
  from run_steps_simulated[OF r[unfolded rn] s0 assms(3) refl assms(4),
      of "execution_id ?ex0" inp ?ex0]
  obtain exs' ws' news where
    sr: "simple_run_steps cfg (execution_id ?ex0) inp ?seq inp ?ex0 w
          = (final_context cfg inp m eid w, exs', ws')"
    and sp: "pending ws' = pending w1"
    and sn: "steps exs' = steps ?ex0 @ news"
      "map step_name news = map step_name (steps ex)"
      "map step_status news = map step_status (steps ex)"
      "map input_data news = map input_data (steps ex)"
      "map output_data news = map output_data (steps ex)"
    by blast
  from sn(1) have sn1: "steps exs' = news" by (simp add: new_execution_fields)
  have fc: "simple_final_context cfg inp m eid w = final_context cfg inp m eid w"
    using sr by (simp add: simple_final_context_def)
  have a: "status (fst (simple_execute_pipeline cfg inp m eid w)) = COMPLETED"
    "steps (fst (simple_execute_pipeline cfg inp m eid w)) = news"
    "pending (snd (simple_execute_pipeline cfg inp m eid w)) = pending ws'"
    using sr sn1 by (simp_all add: simple_execute_pipeline_def Let_def)
  from a sn(2-5) fc sp pe assms(2) show ?thesis by simp
qed

theorem orchestrators_agree_when_all_steps_complete_witness:
  "\<exists>ex. fst (execute_pipeline demo_config demo_input QUICK (Some ''e1'')
            (demo_world [(1 / 5, HttpOk [(''summary'', ''s'')]),
                         (1 / 5, HttpOk [(''response_text'', ''r'')])])) = Inr ex
     \<and> status ex = COMPLETED
     \<and> map step_status (steps ex) = [COMPLETED, COMPLETED]
     \<and> no_adapter_retry (pending (demo_world [(1 / 5, HttpOk [(''summary'', ''s'')]),
                         (1 / 5, HttpOk [(''response_text'', ''r'')])]))
     \<and> status (fst (simple_execute_pipeline demo_config demo_input QUICK (Some ''e1'')
            (demo_world [(1 / 5, HttpOk [(''summary'', ''s'')]),
                         (1 / 5, HttpOk [(''response_text'', ''r'')])]))) = COMPLETED
     \<and> map step_status (steps (fst (simple_execute_pipeline demo_config demo_input QUICK
            (Some ''e1'')
            (demo_world [(1 / 5, HttpOk [(''summary'', ''s'')]),
                         (1 / 5, HttpOk [(''response_text'', ''r'')])]))))
         = [COMPLETED, COMPLETED]
     \<and> map output_data (steps (fst (simple_execute_pipeline demo_config demo_input QUICK
            (Some ''e1'')
            (demo_world [(1 / 5, HttpOk [(''summary'', ''s'')]),
                         (1 / 5, HttpOk [(''response_text'', ''r'')])]))))
         = map output_data (steps ex)
     \<and> simple_final_context demo_config demo_input QUICK (Some ''e1'')
            (demo_world [(1 / 5, HttpOk [(''summary'', ''s'')]),
                         (1 / 5, HttpOk [(''response_text'', ''r'')])])
         = final_context demo_config demo_input QUICK (Some ''e1'')
            (demo_world [(1 / 5, HttpOk [(''summary'', ''s'')]),
                         (1 / 5, HttpOk [(''response_text'', ''r'')])])"
proof -
  let ?w = "demo_world [(1 / 5, HttpOk [(''summary'', ''s'')]),
                        (1 / 5, HttpOk [(''response_text'', ''r'')])]"
  let ?run = "execute_pipeline demo_config demo_input QUICK (Some ''e1'') ?w"
  have ev: "\<exists>x. fst ?run = Inr x \<and> status x = COMPLETED
      \<and> map step_status (steps x) = [COMPLETED, COMPLETED]
      \<and> list_all (\<lambda>s. step_status s = COMPLETED) (steps x)"
    by (simp add: demo_defs exec_defs pipeline_defs retry_loop.simps)
  then obtain ex where x: "fst ?run = Inr ex" "status ex = COMPLETED"
    "map step_status (steps ex) = [COMPLETED, COMPLETED]"
    and la: "list_all (\<lambda>s. step_status s = COMPLETED) (steps ex)"
    by (elim exE conjE)
  let ?sim = "simple_execute_pipeline demo_config demo_input QUICK (Some ''e1'') ?w"
  have nr: "no_adapter_retry (pending ?w)"
    by (simp add: demo_defs no_adapter_retry_def)
  note t = orchestrators_agree_when_all_steps_complete[OF x(1,2) la nr]
  from t x(2) have c1: "status (fst ?sim) = COMPLETED" by (elim conjE) (rule trans)
  from t x(3) have c2: "map step_status (steps (fst ?sim)) = [COMPLETED, COMPLETED]"
    by (elim conjE) (rule trans)
  from t have c3: "map output_data (steps (fst ?sim)) = map output_data (steps ex)"
    by (elim conjE)
  from t have c4: "simple_final_context demo_config demo_input QUICK (Some ''e1'') ?w
      = final_context demo_config demo_input QUICK (Some ''e1'') ?w"
    by (elim conjE)
  show ?thesis
    by (rule exI[of _ ex]) (intro conjI x nr c1 c2 c3 c4)
qed

end
